theory Spec2Isabelle
  imports Main
begin

unbundle bit_operations_syntax

section \<open>Values exchanged with the outside\<close>

text \<open>
  The requester of \<^verbatim>\<open>src/HttpRequester.js\<close> talks to three external collaborators:
  the HTTP transport (\<^verbatim>\<open>axios.post\<close>), the MySQL connection
  (\<^verbatim>\<open>connection.execute\<close>) and the JavaScript runtime (\<^verbatim>\<open>Math.random\<close>,
  \<^verbatim>\<open>JSON\<close>, \<^verbatim>\<open>os.hostname\<close>, the console, the timer). Their answers are
  parameters of the model (the record \<open>world\<close>); what the requester does to them is
  written to a chronological trace of events.
\<close>

text \<open>An Axios response; the code only reads \<^verbatim>\<open>response.status\<close>.\<close>

record response =
  status :: int

text \<open>
  A thrown JavaScript error object. The code reads \<^verbatim>\<open>error.message\<close>,
  \<^verbatim>\<open>error.response\<close> and \<^verbatim>\<open>error.code\<close>; a field an error does not carry is
  \<^verbatim>\<open>undefined\<close>, here \<open>None\<close>.
\<close>

record js_error =
  name :: string
  message :: string
  response :: "response option"
  code :: "string option"

text \<open>The value bound to \<^verbatim>\<open>statusCode\<close>: a number, a string or \<^verbatim>\<open>null\<close>.\<close>

datatype js_value = JNum int | JStr string | JNull

text \<open>
  A row of \<^verbatim>\<open>http_attempts\<close>, with the six columns the INSERT statement writes.
  The columns \<^verbatim>\<open>id\<close> and \<^verbatim>\<open>timestamp\<close> are filled by the storage engine and never
  read by the code.
\<close>

record row =
  request_id :: string
  attempt_number :: nat
  error :: js_value
  payload :: string
  abandoned :: nat
  hostname :: string

text \<open>The four SQL statements of the code, each with its parameter array.\<close>

datatype stmt =
    SelectAll
  | InsertRow row
  | UpdateRow nat nat js_value string
  | DeleteRow string

text \<open>
  A delay in milliseconds as the code computes it, in double precision: a natural number
  or \<^verbatim>\<open>Infinity\<close>.
\<close>

datatype js_number = Finite nat | Infinity

text \<open>The console lines of the code, one constructor per template.\<close>

datatype log_line =
    SendingRequest string
  | RequestFailed string
  | RequestSuccessful int
  | AttemptFailed nat string js_value
  | InsertingRecord
  | RetryingAfter js_number
  | MaxAttemptsReached
  | RetryAttemptFailed nat string
  | NoPendingRequests
  | ProcessingPending
  | ErrorProcessingPending string
  | ErrorInserting string
  | ErrorUpdating string
  | ErrorDeleting string
  | ErrorMainProcess string

datatype 'p event =
    Post string 'p int
  | Sleep js_number
  | Log log_line
  | LogError log_line
  | Execute stmt

text \<open>
  The outside world. \<open>axios_post w n url payload timeout\<close> is the outcome of the
  \<open>n\<close>-th transport call of the run, \<open>execute_fails w n\<close> the error with which the
  \<open>n\<close>-th statement sent to the store is rejected (if it is), \<open>random16 w n\<close> the
  value of \<^verbatim>\<open>(Math.random() * 16) | 0\<close> at the \<open>n\<close>-th draw. \<open>json_stringify\<close>,
  \<open>json_parse\<close> and \<open>toUpperCase\<close> stand for \<^verbatim>\<open>JSON.stringify\<close>, \<^verbatim>\<open>JSON.parse\<close> and
  \<^verbatim>\<open>String.prototype.toUpperCase\<close> of the runtime.
\<close>

record 'p world =
  axios_post :: "nat \<Rightarrow> string \<Rightarrow> 'p \<Rightarrow> int \<Rightarrow> js_error + response"
  execute_fails :: "nat \<Rightarrow> js_error option"
  random16 :: "nat \<Rightarrow> nat"
  json_stringify :: "'p \<Rightarrow> string"
  json_parse :: "string \<Rightarrow> js_error + 'p"
  os_hostname :: string
  toUpperCase :: "string \<Rightarrow> string"

text \<open>
  The state threaded through the code: the table, the trace, and how many transport
  calls, statements and random draws have been made.
\<close>

record 'p state =
  ledger :: "row list"
  trace :: "'p event list"
  posts :: nat
  execs :: nat
  rands :: nat

section \<open>The requester object\<close>

text \<open>
  \<^verbatim>\<open>this.config\<close> and \<^verbatim>\<open>this.hostname\<close>. The documented type of \<^verbatim>\<open>timeout\<close> and
  \<^verbatim>\<open>maxAttempts\<close> is number; the model takes the integers among them (no NaN, no
  infinity, no fraction).
\<close>

record config =
  receiversUrl :: "string list"
  timeout :: int
  maxAttempts :: int

record requester =
  config :: config
  this_hostname :: string

text \<open>The constructor's first argument: a pool, a plain object, or anything else.\<close>

datatype db_arg = Pool | ConfigObject | InvalidDb

text \<open>
  The \<^verbatim>\<open>receiversUrl\<close> option as passed in: a falsy value other than the empty string,
  a string, an array (an element that is not a string is \<open>None\<close>), or any other truthy
  value.
\<close>

datatype urls_arg = FalsyUrls | UrlString string | UrlArray "string option list" | OtherUrls

text \<open>An optional number is \<open>None\<close> when the option is left out.\<close>

record requesterConfig =
  receiversUrl_arg :: urls_arg
  timeout_arg :: "int option"
  maxAttempts_arg :: "int option"

definition startsWith :: "string \<Rightarrow> string \<Rightarrow> bool" where
  "startsWith s p = (take (length p) s = p)"

definition is_url :: "string \<Rightarrow> bool" where
  "is_url u = (startsWith u ''http://'' \<or> startsWith u ''https://'')"

text \<open>\<^verbatim>\<open>[...new Set(xs)]\<close>: the first occurrence of each element, in order.\<close>

fun dedupe :: "'a list \<Rightarrow> 'a list" where
  "dedupe [] = []"
| "dedupe (x # xs) = x # dedupe (filter (\<lambda>y. y \<noteq> x) xs)"

text \<open>\<^verbatim>\<open>value || dflt\<close> on an optional number: \<^verbatim>\<open>undefined\<close> and \<^verbatim>\<open>0\<close> are falsy.\<close>

definition or_default :: "int option \<Rightarrow> int \<Rightarrow> int" where
  "or_default v dflt = (case v of None \<Rightarrow> dflt | Some n \<Rightarrow> if n = 0 then dflt else n)"

definition plain_error :: "string \<Rightarrow> js_error" where
  "plain_error msg = \<lparr>name = ''Error'', message = msg, response = None, code = None\<rparr>"

text \<open>The validation of \<^verbatim>\<open>requesterConfig.receiversUrl\<close> (lines 76 to 88).\<close>

definition validate_receiversUrl :: "urls_arg \<Rightarrow> js_error + string list" where
  "validate_receiversUrl a =
     (case a of
        FalsyUrls \<Rightarrow>
          Inl (plain_error ''Invalid argument type for requesterConfig.receiversUrl. Expected a string or an array.'')
      | UrlString u \<Rightarrow>
          if u = [] then
            Inl (plain_error ''Invalid argument type for requesterConfig.receiversUrl. Expected a string or an array.'')
          else if is_url u then Inr [u]
          else
            Inl (plain_error ''Invalid argument type for requesterConfig.receiversUrl. Expected a string or an array.'')
      | OtherUrls \<Rightarrow>
          Inl (plain_error ''Invalid argument type for requesterConfig.receiversUrl. Expected a string or an array.'')
      | UrlArray xs \<Rightarrow>
          if xs = [] then
            Inl (plain_error ''Invalid argument value for requesterConfig.receiversUrl. Expected a non-empty array.'')
          else if list_ex (\<lambda>x. x = None) xs then
            Inl (plain_error ''Invalid argument value for requesterConfig.receiversUrl. Expected an array of strings.'')
          else if list_ex (\<lambda>x. \<not> is_url (the x)) xs then
            Inl (plain_error ''Invalid argument value for requesterConfig.receiversUrl. Expected an array of URLs.'')
          else Inr (map the xs))"

definition HttpRequester_new ::
  "'p world \<Rightarrow> db_arg \<Rightarrow> requesterConfig \<Rightarrow> js_error + requester" where
  "HttpRequester_new w dbConfigOrPool requesterConfig =
     (if dbConfigOrPool = InvalidDb then
        Inl (plain_error ''Invalid argument type for dbConfigOrPool. Expected an object or a mysql.Pool instance.'')
      else
        case validate_receiversUrl (receiversUrl_arg requesterConfig) of
          Inl e \<Rightarrow> Inl e
        | Inr urls \<Rightarrow>
            Inr \<lparr>config = \<lparr>receiversUrl = dedupe urls,
                            timeout = or_default (timeout_arg requesterConfig) 5000,
                            maxAttempts = or_default (maxAttempts_arg requesterConfig) 5\<rparr>,
                 this_hostname = toUpperCase w (os_hostname w)\<rparr>)"

section \<open>Primitive effects\<close>

definition console_log :: "log_line \<Rightarrow> 'p state \<Rightarrow> 'p state" where
  "console_log l s = s\<lparr>trace := trace s @ [Log l]\<rparr>"

definition console_error :: "log_line \<Rightarrow> 'p state \<Rightarrow> 'p state" where
  "console_error l s = s\<lparr>trace := trace s @ [LogError l]\<rparr>"

text \<open>
  \<^verbatim>\<open>Math.pow(2, attempt) * 1000\<close> in double precision: the product is exact up to
  attempt 1014 and overflows to \<^verbatim>\<open>Infinity\<close> from attempt 1015 on.
\<close>

definition backoff_delay :: "nat \<Rightarrow> js_number" where
  "backoff_delay attempt = (if attempt < 1015 then Finite (2 ^ attempt * 1000) else Infinity)"

text \<open>
  \<^verbatim>\<open>sleep(ms)\<close> arms the timer of the runtime with \<open>ms\<close>; the trace records the call.
  The timer of Node.js waits \<open>ms\<close> milliseconds when \<open>ms\<close> lies between 1 and
  2147483647, and 1 millisecond otherwise: \<open>timer_wait\<close> is the wait made.
\<close>

definition sleep :: "js_number \<Rightarrow> 'p state \<Rightarrow> 'p state" where
  "sleep ms s = s\<lparr>trace := trace s @ [Sleep ms]\<rparr>"

definition timer_wait :: "js_number \<Rightarrow> nat" where
  "timer_wait ms =
     (case ms of
        Finite n \<Rightarrow> if n < 1 \<or> 2147483647 < n then 1 else n
      | Infinity \<Rightarrow> 1)"

text \<open>The wait made after attempt \<open>n\<close> has failed.\<close>

definition backoff_wait :: "nat \<Rightarrow> nat" where
  "backoff_wait n = timer_wait (backoff_delay n)"

definition post ::
  "'p world \<Rightarrow> string \<Rightarrow> 'p \<Rightarrow> int \<Rightarrow> 'p state \<Rightarrow> (js_error + response) \<times> 'p state" where
  "post w url body tmo s =
     (axios_post w (posts s) url body tmo,
      s\<lparr>trace := trace s @ [Post url body tmo], posts := Suc (posts s)\<rparr>)"

text \<open>
  The store answering one statement. A rejected statement changes nothing; otherwise
  the statement has its SQL meaning on the table.
\<close>

definition run_stmt :: "stmt \<Rightarrow> row list \<Rightarrow> row list" where
  "run_stmt q rows =
     (case q of
        SelectAll \<Rightarrow> rows
      | InsertRow r \<Rightarrow> rows @ [r]
      | UpdateRow ab att err key \<Rightarrow>
          map (\<lambda>r. if request_id r = key
                    then r\<lparr>abandoned := ab, attempt_number := att, error := err\<rparr> else r) rows
      | DeleteRow key \<Rightarrow> filter (\<lambda>r. request_id r \<noteq> key) rows)"

definition execute ::
  "'p world \<Rightarrow> stmt \<Rightarrow> 'p state \<Rightarrow> (js_error + row list) \<times> 'p state" where
  "execute w q s =
     (case execute_fails w (execs s) of
        Some e \<Rightarrow> (Inl e, s\<lparr>trace := trace s @ [Execute q], execs := Suc (execs s)\<rparr>)
      | None \<Rightarrow>
          (Inr (if q = SelectAll then ledger s else []),
           s\<lparr>ledger := run_stmt q (ledger s), trace := trace s @ [Execute q],
             execs := Suc (execs s)\<rparr>))"

section \<open>generateUUID\<close>

definition hex_digit :: "nat \<Rightarrow> char" where
  "hex_digit v = ''0123456789abcdef'' ! (v mod 16)"

text \<open>
  The replace callback runs once for each character of the template, left to right;
  \<open>n\<close> counts the draws made so far.
\<close>

fun replace_xy :: "'p world \<Rightarrow> string \<Rightarrow> nat \<Rightarrow> string \<times> nat" where
  "replace_xy w [] n = ([], n)"
| "replace_xy w (c # cs) n =
     (if c = CHR ''x'' \<or> c = CHR ''y'' then
        (let r = random16 w n mod 16;
             v = (if c = CHR ''x'' then r else (r AND 3) OR 8);
             rest = replace_xy w cs (Suc n)
         in (hex_digit v # fst rest, snd rest))
      else
        (let rest = replace_xy w cs n in (c # fst rest, snd rest)))"

definition generateUUID :: "'p world \<Rightarrow> 'p state \<Rightarrow> string \<times> 'p state" where
  "generateUUID w s =
     (let r = replace_xy w ''xxxxxxxx-xxxx-4xxx-yxxx-xxxxxxxxxxxx'' (rands s)
      in (fst r, s\<lparr>rands := snd r\<rparr>))"

section \<open>The attempt ledger\<close>

text \<open>
  Each operation sends one statement and swallows its failure with a console line.
  \<^verbatim>\<open>JSON.stringify\<close> is taken to return a string for the payload (it throws only on
  circular structures and BigInt values).

  The retry engine does not await \<^verbatim>\<open>insertAttemptRecord\<close> and
  \<^verbatim>\<open>abandonAttemptRecord\<close>: the statement is handed to the connection at the call,
  and the line of a rejected statement is printed only when the promise settles, after
  the caller has run on to its next \<^verbatim>\<open>await\<close> or to its end. The two operations
  therefore return the state after the statement is sent together with the line still to
  come, and the caller prints it with \<open>settle\<close>. The table changes when the
  statement is sent.
\<close>

definition insertAttemptRecord ::
  "'p world \<Rightarrow> requester \<Rightarrow> string \<Rightarrow> nat \<Rightarrow> js_value \<Rightarrow> 'p \<Rightarrow> nat \<Rightarrow> 'p state \<Rightarrow>
     log_line option \<times> 'p state" where
  "insertAttemptRecord w this rid attempt err body ab s =
     (case execute w
             (InsertRow \<lparr>request_id = rid, attempt_number = attempt, error = err,
                         payload = json_stringify w body, abandoned = ab,
                         hostname = this_hostname this\<rparr>) s of
        (Inl e, s1) \<Rightarrow> (Some (ErrorInserting (message e)), s1)
      | (Inr _, s1) \<Rightarrow> (None, s1))"

definition abandonAttemptRecord ::
  "'p world \<Rightarrow> string \<Rightarrow> nat \<Rightarrow> js_value \<Rightarrow> 'p state \<Rightarrow> log_line option \<times> 'p state" where
  "abandonAttemptRecord w uniqueKey attempt err s =
     (case execute w (UpdateRow 1 attempt err uniqueKey) s of
        (Inl e, s1) \<Rightarrow> (Some (ErrorUpdating (message e)), s1)
      | (Inr _, s1) \<Rightarrow> (None, s1))"

definition settle :: "log_line option \<Rightarrow> 'p state \<Rightarrow> 'p state" where
  "settle pending s = (case pending of None \<Rightarrow> s | Some l \<Rightarrow> console_error l s)"

text \<open>A key is truthy when it is a non-empty string (\<^verbatim>\<open>null\<close> is \<open>None\<close>).\<close>

definition truthy :: "string option \<Rightarrow> bool" where
  "truthy k = (case k of None \<Rightarrow> False | Some v \<Rightarrow> v \<noteq> [])"

definition deleteAttemptRecord :: "'p world \<Rightarrow> string option \<Rightarrow> 'p state \<Rightarrow> 'p state" where
  "deleteAttemptRecord w uniqueKey s =
     (if truthy uniqueKey then
        (case execute w (DeleteRow (the uniqueKey)) s of
           (Inl e, s1) \<Rightarrow> console_error (ErrorDeleting (message e)) s1
         | (Inr _, s1) \<Rightarrow> s1)
      else s)"

section \<open>sendRequest\<close>

text \<open>
  The loop over \<^verbatim>\<open>this.config.receiversUrl\<close>, on the receivers still to try. The test
  \<^verbatim>\<open>i === length - 1\<close> holds exactly when no receiver is left. A loop that ends without
  returning makes the function return \<^verbatim>\<open>undefined\<close>, here \<open>Inr None\<close>.
\<close>

fun sendRequest_loop ::
  "'p world \<Rightarrow> requester \<Rightarrow> 'p \<Rightarrow> string list \<Rightarrow> 'p state \<Rightarrow>
     (js_error + response option) \<times> 'p state" where
  "sendRequest_loop w this body [] s = (Inr None, s)"
| "sendRequest_loop w this body (receiver # rest) s =
     (case post w receiver body (timeout (config this)) (console_log (SendingRequest receiver) s) of
        (Inr resp, s1) \<Rightarrow> (Inr (Some resp), s1)
      | (Inl e, s1) \<Rightarrow>
          (let s2 = console_log (RequestFailed receiver) s1
           in if rest = [] then (Inl e, s2) else sendRequest_loop w this body rest s2))"

definition sendRequest ::
  "'p world \<Rightarrow> requester \<Rightarrow> 'p \<Rightarrow> 'p state \<Rightarrow> (js_error + response option) \<times> 'p state" where
  "sendRequest w this body s = sendRequest_loop w this body (receiversUrl (config this)) s"

section \<open>makeHttpRequest and retryHttpRequest\<close>

text \<open>Reading \<^verbatim>\<open>response.status\<close> of \<^verbatim>\<open>undefined\<close> throws a TypeError.\<close>

definition type_error :: js_error where
  "type_error = \<lparr>name = ''TypeError'',
                 message = ''Cannot read properties of undefined (reading '' @
                           [CHR 0x27] @ ''status'' @ [CHR 0x27] @ '')'',
                 response = None, code = None\<rparr>"

text \<open>\<^verbatim>\<open>error.response ? error.response.status : error.code || null\<close>\<close>

definition statusCode_of :: "js_error \<Rightarrow> js_value" where
  "statusCode_of e =
     (case response e of
        Some r \<Rightarrow> JNum (status r)
      | None \<Rightarrow> (case code e of
                   None \<Rightarrow> JNull
                 | Some c \<Rightarrow> if c = [] then JNull else JStr c))"

text \<open>
  The \<^verbatim>\<open>try\<close> block of \<^verbatim>\<open>makeHttpRequest\<close>: the error caught, if any, and the state
  reached.
\<close>

definition makeHttpRequest_try ::
  "'p world \<Rightarrow> requester \<Rightarrow> 'p \<Rightarrow> nat \<Rightarrow> string option \<Rightarrow> 'p state \<Rightarrow>
     js_error option \<times> 'p state" where
  "makeHttpRequest_try w this body attempt uniqueKey s =
     (case sendRequest w this body s of
        (Inl e, s1) \<Rightarrow> (Some e, s1)
      | (Inr resp, s1) \<Rightarrow>
          (let s2 = (if attempt > 1 \<and> truthy uniqueKey
                     then deleteAttemptRecord w uniqueKey s1 else s1)
           in case resp of
                None \<Rightarrow> (Some type_error, s2)
              | Some r \<Rightarrow> (None, console_log (RequestSuccessful (status r)) s2)))"

function makeHttpRequest ::
  "'p world \<Rightarrow> requester \<Rightarrow> 'p \<Rightarrow> nat \<Rightarrow> string option \<Rightarrow> 'p state \<Rightarrow>
     (js_error + unit) \<times> 'p state" where
  "makeHttpRequest w this body attempt uniqueKey s =
     (case makeHttpRequest_try w this body attempt uniqueKey s of
        (None, s1) \<Rightarrow> (Inr (), s1)
      | (Some e, s1) \<Rightarrow>
          (let statusCode = statusCode_of e;
               s2 = console_error (AttemptFailed attempt (message e) statusCode) s1;
               ks = (if truthy uniqueKey then (the uniqueKey, s2) else generateUUID w s2);
               key = fst ks;
               s3 = snd ks
           in if int attempt < maxAttempts (config this) then
                (let ins = (if attempt = 1
                            then insertAttemptRecord w this key attempt statusCode body 0
                                   (console_log InsertingRecord s3)
                            else (None, s3));
                     delay = backoff_delay attempt;
                     s5 = settle (fst ins)
                            (sleep delay (console_log (RetryingAfter delay) (snd ins)))
                 in makeHttpRequest w this body (attempt + 1) (Some key) s5)
              else
                (let op = (if attempt = 1
                           then insertAttemptRecord w this key attempt statusCode body 1
                                  (console_log InsertingRecord s3)
                           else abandonAttemptRecord w key attempt statusCode s3)
                 in (Inr (), settle (fst op) (console_error MaxAttemptsReached (snd op))))))"
  by pat_completeness auto
termination
  by (relation "measure (\<lambda>(w, this, body, attempt, uniqueKey, s).
                  nat (maxAttempts (config this) - int attempt))") auto

declare makeHttpRequest.simps [simp del]

text \<open>
  The \<^verbatim>\<open>try\<close> block of \<^verbatim>\<open>retryHttpRequest\<close>.
\<close>

definition retryHttpRequest_try ::
  "'p world \<Rightarrow> requester \<Rightarrow> string \<Rightarrow> 'p \<Rightarrow> 'p state \<Rightarrow> js_error option \<times> 'p state" where
  "retryHttpRequest_try w this requestId body s =
     (case sendRequest w this body s of
        (Inl e, s1) \<Rightarrow> (Some e, s1)
      | (Inr None, s1) \<Rightarrow> (Some type_error, s1)
      | (Inr (Some r), s1) \<Rightarrow>
          (None, deleteAttemptRecord w (Some requestId)
                   (console_log (RequestSuccessful (status r)) s1)))"

text \<open>
  In the last branch the template literal names \<^verbatim>\<open>recordId\<close>, which is bound
  nowhere: evaluating it throws a ReferenceError before anything is printed.
\<close>

definition reference_error :: js_error where
  "reference_error = \<lparr>name = ''ReferenceError'', message = ''recordId is not defined'',
                      response = None, code = None\<rparr>"

function retryHttpRequest ::
  "'p world \<Rightarrow> requester \<Rightarrow> string \<Rightarrow> nat \<Rightarrow> 'p \<Rightarrow> 'p state \<Rightarrow>
     (js_error + unit) \<times> 'p state" where
  "retryHttpRequest w this requestId attempt body s =
     (case retryHttpRequest_try w this requestId body s of
        (None, s1) \<Rightarrow> (Inr (), s1)
      | (Some e, s1) \<Rightarrow>
          (let s2 = console_error (RetryAttemptFailed attempt (message e)) s1
           in if int attempt < maxAttempts (config this) then
                (let delay = backoff_delay attempt;
                     s3 = sleep delay (console_log (RetryingAfter delay) s2)
                 in retryHttpRequest w this requestId (attempt + 1) body s3)
              else (Inl reference_error, s2)))"
  by pat_completeness auto
termination
  by (relation "measure (\<lambda>(w, this, requestId, attempt, body, s).
                  nat (maxAttempts (config this) - int attempt))") auto

declare retryHttpRequest.simps [simp del]

section \<open>checkPendingRequests and startRequest\<close>

text \<open>The \<^verbatim>\<open>for\<close> loop over the rows the SELECT returned.\<close>

fun processRows ::
  "'p world \<Rightarrow> requester \<Rightarrow> row list \<Rightarrow> 'p state \<Rightarrow> (js_error + unit) \<times> 'p state" where
  "processRows w this [] s = (Inr (), s)"
| "processRows w this (r # rows) s =
     (case json_parse w (payload r) of
        Inl e \<Rightarrow> (Inl e, s)
      | Inr body \<Rightarrow>
          (case retryHttpRequest w this (request_id r) (attempt_number r) body s of
             (Inl e, s1) \<Rightarrow> (Inl e, s1)
           | (Inr u, s1) \<Rightarrow> processRows w this rows s1))"

definition checkPendingRequests ::
  "'p world \<Rightarrow> requester \<Rightarrow> 'p state \<Rightarrow> (js_error + unit) \<times> 'p state" where
  "checkPendingRequests w this s =
     (case execute w SelectAll s of
        (Inl e, s1) \<Rightarrow> (Inr (), console_error (ErrorProcessingPending (message e)) s1)
      | (Inr rows, s1) \<Rightarrow>
          if length rows = 0 then (Inr (), console_log NoPendingRequests s1)
          else
            (case processRows w this rows (console_log ProcessingPending s1) of
               (Inl e, s2) \<Rightarrow> (Inr (), console_error (ErrorProcessingPending (message e)) s2)
             | (Inr u, s2) \<Rightarrow> (Inr (), s2)))"

definition startRequest ::
  "'p world \<Rightarrow> requester \<Rightarrow> 'p \<Rightarrow> 'p state \<Rightarrow> (js_error + unit) \<times> 'p state" where
  "startRequest w this body s =
     (case makeHttpRequest w this body 1 None s of
        (Inl e, s1) \<Rightarrow> (Inr (), console_error (ErrorMainProcess (message e)) s1)
      | (Inr u, s1) \<Rightarrow> (Inr (), s1))"

section \<open>Observing a run\<close>

text \<open>The events a run appends to the trace, from the state before and the state after.\<close>

definition new_events :: "'p state \<Rightarrow> 'p state \<Rightarrow> 'p event list" where
  "new_events s s' = drop (length (trace s)) (trace s')"

text \<open>
  The retry ladder of a run: the attempts reported as failed and the waits made by the
  timer (in milliseconds), in the order they happen.
\<close>

datatype rung = Failed nat | Wait nat

fun rung_of :: "'p event \<Rightarrow> rung list" where
  "rung_of (LogError (AttemptFailed n m c)) = [Failed n]"
| "rung_of (LogError (RetryAttemptFailed n m)) = [Failed n]"
| "rung_of (Sleep ms) = [Wait (timer_wait ms)]"
| "rung_of e = []"

definition ladder :: "'p event list \<Rightarrow> rung list" where
  "ladder evs = concat (map rung_of evs)"

text \<open>The full ladder between two attempt numbers.\<close>

definition rungs :: "nat \<Rightarrow> nat \<Rightarrow> rung list" where
  "rungs a k = concat (map (\<lambda>n. [Failed n, Wait (backoff_wait n)]) [a..<k])"

text \<open>The statements sent to the store, in order.\<close>

fun stmt_of :: "'p event \<Rightarrow> stmt list" where
  "stmt_of (Execute q) = [q]"
| "stmt_of e = []"

definition statements :: "'p event list \<Rightarrow> stmt list" where
  "statements evs = concat (map stmt_of evs)"

text \<open>A run succeeded when it printed the line of a successful request.\<close>

fun is_success :: "'p event \<Rightarrow> bool" where
  "is_success (Log (RequestSuccessful st)) = True"
| "is_success e = False"

definition succeeded :: "'p event list \<Rightarrow> bool" where
  "succeeded evs = list_ex is_success evs"

text \<open>The recovery scan reported an error.\<close>

fun is_scan_error :: "'p event \<Rightarrow> bool" where
  "is_scan_error (LogError (ErrorProcessingPending m)) = True"
| "is_scan_error e = False"

text \<open>The events of one receiver tried in vain, and of one that answered.\<close>

definition failed_try :: "requester \<Rightarrow> 'p \<Rightarrow> string \<Rightarrow> 'p event list" where
  "failed_try this body u =
     [Log (SendingRequest u), Post u body (timeout (config this)), Log (RequestFailed u)]"

definition good_try :: "requester \<Rightarrow> 'p \<Rightarrow> string \<Rightarrow> 'p event list" where
  "good_try this body u = [Log (SendingRequest u), Post u body (timeout (config this))]"

fun is_dispatch_event :: "'p event \<Rightarrow> bool" where
  "is_dispatch_event (Post u b t) = True"
| "is_dispatch_event (Log (SendingRequest u)) = True"
| "is_dispatch_event (Log (RequestFailed u)) = True"
| "is_dispatch_event e = False"

text \<open>
  Names for the states inside the \<^verbatim>\<open>catch\<close> block of \<^verbatim>\<open>makeHttpRequest\<close>: after the
  key is fixed, before the recursive call, and when the attempts are used up.
\<close>

definition catch_entry ::
  "'p world \<Rightarrow> nat \<Rightarrow> string option \<Rightarrow> js_error \<Rightarrow> 'p state \<Rightarrow> string \<times> 'p state" where
  "catch_entry w attempt uniqueKey e s1 =
     (let s2 = console_error (AttemptFailed attempt (message e) (statusCode_of e)) s1
      in if truthy uniqueKey then (the uniqueKey, s2) else generateUUID w s2)"

definition before_retry ::
  "'p world \<Rightarrow> requester \<Rightarrow> 'p \<Rightarrow> nat \<Rightarrow> string option \<Rightarrow> js_error \<Rightarrow> 'p state \<Rightarrow> 'p state" where
  "before_retry w this body attempt uniqueKey e s1 =
     (let ks = catch_entry w attempt uniqueKey e s1;
          ins = (if attempt = 1
                 then insertAttemptRecord w this (fst ks) attempt (statusCode_of e) body 0
                        (console_log InsertingRecord (snd ks))
                 else (None, snd ks));
          delay = backoff_delay attempt
      in settle (fst ins) (sleep delay (console_log (RetryingAfter delay) (snd ins))))"

definition given_up ::
  "'p world \<Rightarrow> requester \<Rightarrow> 'p \<Rightarrow> nat \<Rightarrow> string option \<Rightarrow> js_error \<Rightarrow> 'p state \<Rightarrow> 'p state" where
  "given_up w this body attempt uniqueKey e s1 =
     (let ks = catch_entry w attempt uniqueKey e s1;
          op = (if attempt = 1
                then insertAttemptRecord w this (fst ks) attempt (statusCode_of e) body 1
                       (console_log InsertingRecord (snd ks))
                else abandonAttemptRecord w (fst ks) attempt (statusCode_of e) (snd ks))
      in settle (fst op) (console_error MaxAttemptsReached (snd op)))"

text \<open>The same for \<^verbatim>\<open>retryHttpRequest\<close>.\<close>

definition resume_backoff :: "nat \<Rightarrow> js_error \<Rightarrow> 'p state \<Rightarrow> 'p state" where
  "resume_backoff attempt e s1 =
     (let s2 = console_error (RetryAttemptFailed attempt (message e)) s1;
          delay = backoff_delay attempt
      in sleep delay (console_log (RetryingAfter delay) s2))"

text \<open>
  Resuming every row of a list once, in order: what a scan that meets no error is
  compared with.
\<close>

definition resume_row :: "'p world \<Rightarrow> requester \<Rightarrow> 'p state \<Rightarrow> row \<Rightarrow> 'p state" where
  "resume_row w this s r =
     snd (retryHttpRequest w this (request_id r) (attempt_number r)
            (projr (json_parse w (payload r))) s)"

definition resume_all :: "'p world \<Rightarrow> requester \<Rightarrow> row list \<Rightarrow> 'p state \<Rightarrow> 'p state" where
  "resume_all w this rows s = foldl (resume_row w this) s rows"

text \<open>The row an INSERT of the code writes, and the identifier a delivery started in
  state \<open>s\<close> draws when its first attempt fails.\<close>

definition attempt_row ::
  "'p world \<Rightarrow> requester \<Rightarrow> string \<Rightarrow> nat \<Rightarrow> js_value \<Rightarrow> 'p \<Rightarrow> nat \<Rightarrow> row" where
  "attempt_row w this rid a c body ab =
     \<lparr>request_id = rid, attempt_number = a, error = c, payload = json_stringify w body,
      abandoned = ab, hostname = this_hostname this\<rparr>"

definition delivery_id :: "'p world \<Rightarrow> 'p state \<Rightarrow> string" where
  "delivery_id w s = fst (generateUUID w s)"

text \<open>
  The state in which \<^verbatim>\<open>checkPendingRequests\<close> enters its loop over the rows: the
  SELECT has been sent and the line announcing the pending requests printed.
\<close>

definition scan_start :: "'p world \<Rightarrow> 'p state \<Rightarrow> 'p state" where
  "scan_start w s = console_log ProcessingPending (snd (execute w SelectAll s))"

section \<open>Concrete scenarios\<close>

text \<open>
  Three failures of the transport: an answer with status 503, a refused connection (a
  code but no response), and an error object that carries neither.
\<close>

definition err_503 :: js_error where
  "err_503 = \<lparr>name = ''AxiosError'', message = ''Request failed with status code 503'',
              response = Some \<lparr>status = 503\<rparr>, code = Some ''ERR_BAD_RESPONSE''\<rparr>"

definition err_refused :: js_error where
  "err_refused = \<lparr>name = ''AxiosError'', message = ''connect ECONNREFUSED'',
                  response = None, code = Some ''ECONNREFUSED''\<rparr>"

definition err_bare :: js_error where
  "err_bare = \<lparr>name = ''Error'', message = ''Network Error'',
               response = None, code = None\<rparr>"

text \<open>
  The payloads of the scenarios are strings without quotes, backslashes or control
  characters: their JSON text is the string between double quotes, and a text that is
  not of that form is rejected with a SyntaxError.
\<close>

definition quoted :: "string \<Rightarrow> string" where
  "quoted b = CHR 0x22 # b @ [CHR 0x22]"

definition syntax_error :: js_error where
  "syntax_error = \<lparr>name = ''SyntaxError'', message = ''Unexpected token in JSON'',
                   response = None, code = None\<rparr>"

definition unquoted :: "string \<Rightarrow> js_error + string" where
  "unquoted t =
     (if 2 \<le> length t \<and> hd t = CHR 0x22 \<and> last t = CHR 0x22
      then Inr (butlast (tl t)) else Inl syntax_error)"

text \<open>Upper case of the letters a to z, for the host names of the scenarios.\<close>

definition ascii_upper :: "string \<Rightarrow> string" where
  "ascii_upper s =
     map (\<lambda>c. if 97 \<le> (of_char c :: nat) \<and> (of_char c :: nat) \<le> 122
               then char_of (of_char c - (32 :: nat)) else c) s"

text \<open>
  A world whose \<open>n\<close>-th transport call has the given outcome, with a store that accepts
  every statement and random draws that are all 0.
\<close>

definition demo_world :: "(nat \<Rightarrow> js_error + response) \<Rightarrow> string world" where
  "demo_world outcome =
     \<lparr>axios_post = (\<lambda>n u b t. outcome n), execute_fails = (\<lambda>n. None),
      random16 = (\<lambda>n. 0), json_stringify = quoted, json_parse = unquoted,
      os_hostname = ''node-1'', toUpperCase = ascii_upper\<rparr>"

definition always_503 :: "nat \<Rightarrow> js_error + response" where
  "always_503 n = Inl err_503"

definition up_after :: "nat \<Rightarrow> nat \<Rightarrow> js_error + response" where
  "up_after k n = (if n < k then Inl err_503 else Inr \<lparr>status = 200\<rparr>)"

definition always_refused :: "nat \<Rightarrow> js_error + response" where
  "always_refused n = Inl err_refused"

definition always_bare :: "nat \<Rightarrow> js_error + response" where
  "always_bare n = Inl err_bare"

definition demo_requester :: "string list \<Rightarrow> int \<Rightarrow> requester" where
  "demo_requester us m =
     \<lparr>config = \<lparr>receiversUrl = us, timeout = 5000, maxAttempts = m\<rparr>,
      this_hostname = ''NODE-1''\<rparr>"

definition demo_uuid :: string where
  "demo_uuid = ''00000000-0000-4000-8000-000000000000''"

definition fresh_state :: "string state" where
  "fresh_state = \<lparr>ledger = [], trace = [], posts = 0, execs = 0, rands = 0\<rparr>"

definition stored_row :: "string \<Rightarrow> nat \<Rightarrow> nat \<Rightarrow> row" where
  "stored_row rid att ab =
     \<lparr>request_id = rid, attempt_number = att, error = JNum 503, payload = quoted ''hello'',
      abandoned = ab, hostname = ''NODE-1''\<rparr>"

definition state_with :: "row list \<Rightarrow> string state" where
  "state_with rows = \<lparr>ledger = rows, trace = [], posts = 0, execs = 0, rands = 0\<rparr>"

section \<open>Dispatch\<close>

lemma ladder_append [simp]: "ladder (xs @ ys) = ladder xs @ ladder ys"
  by (simp add: ladder_def)

lemma statements_append [simp]: "statements (xs @ ys) = statements xs @ statements ys"
  by (simp add: statements_def)

lemma succeeded_append [simp]: "succeeded (xs @ ys) = (succeeded xs \<or> succeeded ys)"
  by (auto simp: succeeded_def list_ex_iff)

lemma new_events_append: "trace s' = trace s @ evs \<Longrightarrow> new_events s s' = evs"
  by (simp add: new_events_def)

lemma sendRequest_loop_step:
  assumes "axios_post w (posts s) u body (timeout (config this)) = Inl e" and "us \<noteq> []"
  shows "\<exists>s2. sendRequest_loop w this body (u # us) s = sendRequest_loop w this body us s2 \<and>
           trace s2 = trace s @ failed_try this body u \<and> posts s2 = Suc (posts s) \<and>
           ledger s2 = ledger s \<and> execs s2 = execs s \<and> rands s2 = rands s"
proof (rule exI [of _ "console_log (RequestFailed u)
          (snd (post w u body (timeout (config this)) (console_log (SendingRequest u) s)))"])
  show "sendRequest_loop w this body (u # us) s =
          sendRequest_loop w this body us
            (console_log (RequestFailed u)
              (snd (post w u body (timeout (config this)) (console_log (SendingRequest u) s)))) \<and>
        trace (console_log (RequestFailed u)
              (snd (post w u body (timeout (config this)) (console_log (SendingRequest u) s)))) =
          trace s @ failed_try this body u \<and>
        posts (console_log (RequestFailed u)
              (snd (post w u body (timeout (config this)) (console_log (SendingRequest u) s)))) =
          Suc (posts s) \<and>
        ledger (console_log (RequestFailed u)
              (snd (post w u body (timeout (config this)) (console_log (SendingRequest u) s)))) =
          ledger s \<and>
        execs (console_log (RequestFailed u)
              (snd (post w u body (timeout (config this)) (console_log (SendingRequest u) s)))) =
          execs s \<and>
        rands (console_log (RequestFailed u)
              (snd (post w u body (timeout (config this)) (console_log (SendingRequest u) s)))) =
          rands s"
    using assms by (simp add: post_def console_log_def failed_try_def)
qed

lemma sendRequest_loop_frame:
  "ledger (snd (sendRequest_loop w this body us s)) = ledger s \<and>
   execs (snd (sendRequest_loop w this body us s)) = execs s \<and>
   rands (snd (sendRequest_loop w this body us s)) = rands s"
proof (induction us arbitrary: s)
  case Nil
  then show ?case by simp
next
  case (Cons u us)
  show ?case
  proof (cases "axios_post w (posts s) u body (timeout (config this))")
    case (Inr r)
    then show ?thesis by (simp add: post_def console_log_def)
  next
    case (Inl e)
    show ?thesis
    proof (cases "us = []")
      case True
      with Inl show ?thesis by (simp add: post_def console_log_def)
    next
      case False
      from sendRequest_loop_step [OF Inl False] obtain s2 where
        "sendRequest_loop w this body (u # us) s = sendRequest_loop w this body us s2"
        "ledger s2 = ledger s" "execs s2 = execs s" "rands s2 = rands s"
        by blast
      with Cons.IH [of s2] show ?thesis
        by (simp del: sendRequest_loop.simps)
    qed
  qed
qed

lemma sendRequest_loop_all_fail:
  "us \<noteq> [] \<Longrightarrow>
   \<forall>i<length us. isl (axios_post w (posts s + i) (us ! i) body (timeout (config this))) \<Longrightarrow>
   fst (sendRequest_loop w this body us s) =
     Inl (projl (axios_post w (posts s + (length us - 1)) (last us) body (timeout (config this)))) \<and>
   trace (snd (sendRequest_loop w this body us s)) =
     trace s @ concat (map (failed_try this body) us)"
proof (induction us arbitrary: s)
  case Nil
  then show ?case by simp
next
  case (Cons u us)
  from Cons.prems(2) have h0: "isl (axios_post w (posts s) u body (timeout (config this)))"
    by fastforce
  then obtain e where e: "axios_post w (posts s) u body (timeout (config this)) = Inl e"
    by (cases "axios_post w (posts s) u body (timeout (config this))") auto
  show ?case
  proof (cases "us = []")
    case True
    with e show ?thesis
      by (simp add: post_def console_log_def failed_try_def)
  next
    case False
    from sendRequest_loop_step [OF e False] obtain s2 where
      step: "sendRequest_loop w this body (u # us) s = sendRequest_loop w this body us s2"
      and tr: "trace s2 = trace s @ failed_try this body u" and po: "posts s2 = Suc (posts s)"
      by blast
    have "\<forall>i<length us. isl (axios_post w (posts s2 + i) (us ! i) body (timeout (config this)))"
    proof (intro allI impI)
      fix i assume "i < length us"
      then have "isl (axios_post w (posts s + Suc i) ((u # us) ! Suc i) body (timeout (config this)))"
        using Cons.prems(2) by (metis Suc_less_eq length_Cons)
      then show "isl (axios_post w (posts s2 + i) (us ! i) body (timeout (config this)))"
        by (simp add: po)
    qed
    then have ih: "fst (sendRequest_loop w this body us s2) =
          Inl (projl (axios_post w (posts s2 + (length us - 1)) (last us) body (timeout (config this))))"
      and ih2: "trace (snd (sendRequest_loop w this body us s2)) =
          trace s2 @ concat (map (failed_try this body) us)"
      using Cons.IH [OF False, of s2] by simp_all
    have arith: "posts s2 + (length us - 1) = posts s + (length (u # us) - 1)"
      using False po by (cases us) auto
    have la: "last (u # us) = last us"
      using False by simp
    show ?thesis
      unfolding step ih ih2 arith la tr by simp
  qed
qed

lemma sendRequest_loop_success:
  "k < length us \<Longrightarrow>
   \<forall>i<k. isl (axios_post w (posts s + i) (us ! i) body (timeout (config this))) \<Longrightarrow>
   axios_post w (posts s + k) (us ! k) body (timeout (config this)) = Inr r \<Longrightarrow>
   fst (sendRequest_loop w this body us s) = Inr (Some r) \<and>
   trace (snd (sendRequest_loop w this body us s)) =
     trace s @ concat (map (failed_try this body) (take k us)) @ good_try this body (us ! k)"
proof (induction us arbitrary: s k)
  case Nil
  then show ?case by simp
next
  case (Cons u us)
  show ?case
  proof (cases k)
    case 0
    with Cons.prems show ?thesis
      by (simp add: post_def console_log_def good_try_def)
  next
    case (Suc j)
    from Cons.prems(2) Suc have "isl (axios_post w (posts s) u body (timeout (config this)))"
      by fastforce
    then obtain e where e: "axios_post w (posts s) u body (timeout (config this)) = Inl e"
      by (cases "axios_post w (posts s) u body (timeout (config this))") auto
    from Cons.prems(1) Suc have j: "j < length us" by simp
    then have ne: "us \<noteq> []" by auto
    from sendRequest_loop_step [OF e ne] obtain s2 where
      step: "sendRequest_loop w this body (u # us) s = sendRequest_loop w this body us s2"
      and tr: "trace s2 = trace s @ failed_try this body u" and po: "posts s2 = Suc (posts s)"
      by blast
    have fails: "\<forall>i<j. isl (axios_post w (posts s2 + i) (us ! i) body (timeout (config this)))"
    proof (intro allI impI)
      fix i assume "i < j"
      then have "isl (axios_post w (posts s + Suc i) ((u # us) ! Suc i) body (timeout (config this)))"
        using Cons.prems(2) Suc by (metis Suc_less_eq)
      then show "isl (axios_post w (posts s2 + i) (us ! i) body (timeout (config this)))"
        by (simp add: po)
    qed
    have good: "axios_post w (posts s2 + j) (us ! j) body (timeout (config this)) = Inr r"
      using Cons.prems(3) Suc by (simp add: po)
    from Cons.IH [OF j fails good] step Suc tr show ?thesis
      by (simp del: sendRequest_loop.simps)
  qed
qed

lemma sendRequest_loop_events:
  "\<exists>evs. trace (snd (sendRequest_loop w this body us s)) = trace s @ evs \<and>
         list_all is_dispatch_event evs"
proof (induction us arbitrary: s)
  case Nil
  then show ?case by simp
next
  case (Cons u us)
  show ?case
  proof (cases "axios_post w (posts s) u body (timeout (config this))")
    case (Inr r)
    then show ?thesis by (simp add: post_def console_log_def)
  next
    case (Inl e)
    show ?thesis
    proof (cases "us = []")
      case True
      with Inl show ?thesis by (simp add: post_def console_log_def)
    next
      case False
      from sendRequest_loop_step [OF Inl False] obtain s2 where
        step: "sendRequest_loop w this body (u # us) s = sendRequest_loop w this body us s2"
        and tr: "trace s2 = trace s @ failed_try this body u"
        by blast
      from Cons.IH [of s2] obtain evs where
        "trace (snd (sendRequest_loop w this body us s2)) = trace s2 @ evs"
        "list_all is_dispatch_event evs" by blast
      with step tr show ?thesis
        by (simp add: failed_try_def del: sendRequest_loop.simps)
    qed
  qed
qed

lemma dispatch_events_silent:
  "list_all is_dispatch_event evs \<Longrightarrow>
   ladder evs = [] \<and> statements evs = [] \<and> \<not> succeeded evs \<and>
   LogError MaxAttemptsReached \<notin> set evs"
proof (induction evs)
  case Nil
  then show ?case by (simp add: ladder_def statements_def succeeded_def)
next
  case (Cons e evs)
  then show ?case
    by (cases e rule: is_dispatch_event.cases)
       (simp_all add: ladder_def statements_def succeeded_def)
qed

lemma sendRequest_loop_nonempty:
  "us \<noteq> [] \<Longrightarrow> fst (sendRequest_loop w this body us s) \<noteq> Inr None"
proof (induction us arbitrary: s)
  case Nil
  then show ?case by simp
next
  case (Cons u us)
  show ?case
  proof (cases "axios_post w (posts s) u body (timeout (config this))")
    case (Inr r)
    then show ?thesis by (simp add: post_def console_log_def)
  next
    case (Inl e)
    show ?thesis
    proof (cases "us = []")
      case True
      with Inl show ?thesis by (simp add: post_def console_log_def)
    next
      case False
      from sendRequest_loop_step [OF Inl False] Cons.IH [OF False] show ?thesis
        by (auto simp del: sendRequest_loop.simps)
    qed
  qed
qed

section \<open>The primitive steps\<close>

lemma replace_xy_length: "length (fst (replace_xy w cs n)) = length cs"
  by (induction cs arbitrary: n) (simp_all add: Let_def)

lemma generateUUID_nonempty: "fst (generateUUID w s) \<noteq> []"
proof -
  have "length (fst (generateUUID w s)) = 36"
    by (simp add: generateUUID_def Let_def replace_xy_length)
  then show ?thesis by auto
qed

lemma generateUUID_frame:
  "ledger (snd (generateUUID w s)) = ledger s \<and> trace (snd (generateUUID w s)) = trace s \<and>
   execs (snd (generateUUID w s)) = execs s \<and> posts (snd (generateUUID w s)) = posts s"
  by (simp add: generateUUID_def Let_def)

lemma generateUUID_rands:
  "rands s1 = rands s \<Longrightarrow> fst (generateUUID w s1) = fst (generateUUID w s)"
  by (simp add: generateUUID_def Let_def)

text \<open>A ledger operation appends its statement and, when rejected, one error line.\<close>

lemma insertAttemptRecord_ok:
  assumes "execute_fails w (execs s) = None"
  shows "ledger (snd (insertAttemptRecord w this rid a c body ab s)) =
           ledger s @ [\<lparr>request_id = rid, attempt_number = a, error = c,
                        payload = json_stringify w body, abandoned = ab,
                        hostname = this_hostname this\<rparr>]"
    and "trace (snd (insertAttemptRecord w this rid a c body ab s)) =
           trace s @ [Execute (InsertRow \<lparr>request_id = rid, attempt_number = a, error = c,
                        payload = json_stringify w body, abandoned = ab,
                        hostname = this_hostname this\<rparr>)]"
    and "execs (snd (insertAttemptRecord w this rid a c body ab s)) = Suc (execs s)"
    and "fst (insertAttemptRecord w this rid a c body ab s) = None"
  using assms by (simp_all add: insertAttemptRecord_def execute_def run_stmt_def)

lemma abandonAttemptRecord_ok:
  assumes "execute_fails w (execs s) = None"
  shows "ledger (snd (abandonAttemptRecord w key a c s)) =
           run_stmt (UpdateRow 1 a c key) (ledger s)"
    and "trace (snd (abandonAttemptRecord w key a c s)) =
           trace s @ [Execute (UpdateRow 1 a c key)]"
    and "execs (snd (abandonAttemptRecord w key a c s)) = Suc (execs s)"
    and "fst (abandonAttemptRecord w key a c s) = None"
  using assms by (simp_all add: abandonAttemptRecord_def execute_def)

lemma deleteAttemptRecord_ok:
  assumes "execute_fails w (execs s) = None" and "key \<noteq> []"
  shows "ledger (deleteAttemptRecord w (Some key) s) = run_stmt (DeleteRow key) (ledger s)"
    and "trace (deleteAttemptRecord w (Some key) s) = trace s @ [Execute (DeleteRow key)]"
    and "execs (deleteAttemptRecord w (Some key) s) = Suc (execs s)"
  using assms by (simp_all add: deleteAttemptRecord_def execute_def truthy_def)

text \<open>Whatever the store answers, a ledger operation adds nothing to the ladder.\<close>

lemma execute_events:
  "\<exists>evs. trace (snd (execute w q s)) = trace s @ evs \<and> ladder evs = [] \<and> \<not> succeeded evs"
  by (cases "execute_fails w (execs s)")
     (simp_all add: execute_def ladder_def succeeded_def)

lemma insertAttemptRecord_events:
  "trace (snd (insertAttemptRecord w this rid a c body ab s)) =
     trace s @ [Execute (InsertRow \<lparr>request_id = rid, attempt_number = a, error = c,
                  payload = json_stringify w body, abandoned = ab,
                  hostname = this_hostname this\<rparr>)]"
  "\<exists>evs. trace (settle (fst (insertAttemptRecord w this rid a c body ab s)) s') = trace s' @ evs \<and>
         ladder evs = [] \<and> \<not> succeeded evs"
  by (cases "execute_fails w (execs s)";
      simp add: insertAttemptRecord_def execute_def settle_def console_error_def ladder_def
        succeeded_def)+

lemma abandonAttemptRecord_events:
  "trace (snd (abandonAttemptRecord w key a c s)) = trace s @ [Execute (UpdateRow 1 a c key)]"
  "\<exists>evs. trace (settle (fst (abandonAttemptRecord w key a c s)) s') = trace s' @ evs \<and>
         ladder evs = [] \<and> \<not> succeeded evs"
  by (cases "execute_fails w (execs s)";
      simp add: abandonAttemptRecord_def execute_def settle_def console_error_def ladder_def
        succeeded_def)+

lemma deleteAttemptRecord_events:
  "\<exists>evs. trace (deleteAttemptRecord w k s) = trace s @ evs \<and>
         ladder evs = [] \<and> \<not> succeeded evs"
  by (cases "execute_fails w (execs s)")
     (simp_all add: deleteAttemptRecord_def execute_def console_error_def ladder_def succeeded_def)

section \<open>The catch block of makeHttpRequest\<close>

lemma catch_entry_frame:
  "trace (snd (catch_entry w a k e s1)) =
     trace s1 @ [LogError (AttemptFailed a (message e) (statusCode_of e))]"
  "ledger (snd (catch_entry w a k e s1)) = ledger s1"
  "execs (snd (catch_entry w a k e s1)) = execs s1"
  by (simp_all add: catch_entry_def Let_def console_error_def generateUUID_def)

lemma catch_entry_key:
  "fst (catch_entry w a k e s1) \<noteq> []"
  "truthy k \<Longrightarrow> fst (catch_entry w a k e s1) = the k"
  "\<not> truthy k \<Longrightarrow> rands s1 = rands s \<Longrightarrow> fst (catch_entry w a k e s1) = fst (generateUUID w s)"
proof -
  show "fst (catch_entry w a k e s1) \<noteq> []"
    using generateUUID_nonempty [of w]
    by (cases k) (auto simp: catch_entry_def Let_def truthy_def)
  show "truthy k \<Longrightarrow> fst (catch_entry w a k e s1) = the k"
    by (simp add: catch_entry_def Let_def)
  show "\<not> truthy k \<Longrightarrow> rands s1 = rands s \<Longrightarrow> fst (catch_entry w a k e s1) = fst (generateUUID w s)"
    by (simp add: catch_entry_def Let_def generateUUID_def console_error_def)
qed

lemma before_retry_ladder:
  "\<exists>evs. trace (before_retry w this body a k e s1) = trace s1 @ evs \<and>
         ladder evs = [Failed a, Wait (backoff_wait a)] \<and> \<not> succeeded evs"
proof (cases "a = 1")
  case True
  let ?s3 = "console_log InsertingRecord (snd (catch_entry w a k e s1))"
  let ?ins = "insertAttemptRecord w this (fst (catch_entry w a k e s1)) a (statusCode_of e) body 0 ?s3"
  let ?s5 = "sleep (backoff_delay a) (console_log (RetryingAfter (backoff_delay a)) (snd ?ins))"
  from insertAttemptRecord_events(2)
    [where w = w and this = this and rid = "fst (catch_entry w a k e s1)" and a = a
       and c = "statusCode_of e" and body = body and ab = 0 and s = ?s3 and s' = ?s5]
  obtain evs where
    evs: "trace (settle (fst ?ins) ?s5) = trace ?s5 @ evs" "ladder evs = []" "\<not> succeeded evs"
    by blast
  have "trace ?s5 = trace s1 @
      [LogError (AttemptFailed a (message e) (statusCode_of e)), Log InsertingRecord,
       Execute (InsertRow \<lparr>request_id = fst (catch_entry w a k e s1), attempt_number = a,
          error = statusCode_of e, payload = json_stringify w body, abandoned = 0,
          hostname = this_hostname this\<rparr>),
       Log (RetryingAfter (backoff_delay a)), Sleep (backoff_delay a)]"
    by (simp add: sleep_def console_log_def insertAttemptRecord_events(1) catch_entry_frame)
  with evs True show ?thesis
    by (simp add: before_retry_def Let_def ladder_def succeeded_def backoff_wait_def)
next
  case False
  then show ?thesis
    by (simp add: before_retry_def Let_def settle_def sleep_def console_log_def catch_entry_frame
                  ladder_def succeeded_def backoff_wait_def)
qed

lemma given_up_ladder:
  "\<exists>evs. trace (given_up w this body a k e s1) = trace s1 @ evs \<and>
         ladder evs = [Failed a] \<and> \<not> succeeded evs"
proof (cases "a = 1")
  case True
  let ?s3 = "console_log InsertingRecord (snd (catch_entry w a k e s1))"
  let ?op = "insertAttemptRecord w this (fst (catch_entry w a k e s1)) a (statusCode_of e) body 1 ?s3"
  let ?s5 = "console_error MaxAttemptsReached (snd ?op)"
  from insertAttemptRecord_events(2)
    [where w = w and this = this and rid = "fst (catch_entry w a k e s1)" and a = a
       and c = "statusCode_of e" and body = body and ab = 1 and s = ?s3 and s' = ?s5]
  obtain evs where
    evs: "trace (settle (fst ?op) ?s5) = trace ?s5 @ evs" "ladder evs = []" "\<not> succeeded evs"
    by blast
  have "trace ?s5 = trace s1 @
      [LogError (AttemptFailed a (message e) (statusCode_of e)), Log InsertingRecord,
       Execute (InsertRow \<lparr>request_id = fst (catch_entry w a k e s1), attempt_number = a,
          error = statusCode_of e, payload = json_stringify w body, abandoned = 1,
          hostname = this_hostname this\<rparr>),
       LogError MaxAttemptsReached]"
    by (simp add: console_error_def console_log_def insertAttemptRecord_events(1) catch_entry_frame)
  with evs True show ?thesis
    by (simp add: given_up_def Let_def ladder_def succeeded_def)
next
  case False
  let ?op = "abandonAttemptRecord w (fst (catch_entry w a k e s1)) a (statusCode_of e)
               (snd (catch_entry w a k e s1))"
  let ?s5 = "console_error MaxAttemptsReached (snd ?op)"
  from abandonAttemptRecord_events(2)
    [where w = w and key = "fst (catch_entry w a k e s1)" and a = a
       and c = "statusCode_of e" and s = "snd (catch_entry w a k e s1)" and s' = ?s5]
  obtain evs where
    evs: "trace (settle (fst ?op) ?s5) = trace ?s5 @ evs" "ladder evs = []" "\<not> succeeded evs"
    by blast
  have "trace ?s5 = trace s1 @
      [LogError (AttemptFailed a (message e) (statusCode_of e)),
       Execute (UpdateRow 1 a (statusCode_of e) (fst (catch_entry w a k e s1))),
       LogError MaxAttemptsReached]"
    by (simp add: console_error_def abandonAttemptRecord_events(1) catch_entry_frame)
  with evs False show ?thesis
    by (simp add: given_up_def Let_def ladder_def succeeded_def)
qed

section \<open>Unfolding makeHttpRequest\<close>

lemma makeHttpRequest_cases:
  "(\<exists>s1. makeHttpRequest_try w this body a k s = (None, s1) \<and>
         makeHttpRequest w this body a k s = (Inr (), s1)) \<or>
   (\<exists>e s1. makeHttpRequest_try w this body a k s = (Some e, s1) \<and>
           int a < maxAttempts (config this) \<and>
           makeHttpRequest w this body a k s =
             makeHttpRequest w this body (Suc a) (Some (fst (catch_entry w a k e s1)))
               (before_retry w this body a k e s1)) \<or>
   (\<exists>e s1. makeHttpRequest_try w this body a k s = (Some e, s1) \<and>
           \<not> int a < maxAttempts (config this) \<and>
           makeHttpRequest w this body a k s = (Inr (), given_up w this body a k e s1))"
proof (cases "makeHttpRequest_try w this body a k s")
  case (Pair oe s1)
  show ?thesis
  proof (cases oe)
    case None
    with Pair show ?thesis
      by (subst makeHttpRequest.simps) simp
  next
    case (Some e)
    show ?thesis
    proof (cases "int a < maxAttempts (config this)")
      case True
      with Pair Some show ?thesis
        by (subst makeHttpRequest.simps)
           (simp add: Let_def catch_entry_def before_retry_def)
    next
      case False
      with Pair Some show ?thesis
        by (subst makeHttpRequest.simps)
           (simp add: Let_def catch_entry_def given_up_def)
    qed
  qed
qed

section \<open>Events of a try block\<close>

lemma new_events_trans:
  assumes "trace s1 = trace s @ new_events s s1" and "trace s2 = trace s1 @ new_events s1 s2"
  shows "new_events s s2 = new_events s s1 @ new_events s1 s2"
    and "trace s2 = trace s @ new_events s s2"
proof -
  have h: "trace s2 = trace s @ (new_events s s1 @ new_events s1 s2)"
    using assms by simp
  from new_events_append [OF h]
  show e: "new_events s s2 = new_events s s1 @ new_events s1 s2" .
  from h show "trace s2 = trace s @ new_events s s2"
    unfolding e .
qed

lemma new_events_intro:
  assumes "trace s1 = trace s @ evs"
  shows "trace s1 = trace s @ new_events s s1" and "new_events s s1 = evs"
  using assms by (simp_all add: new_events_def)

lemma sendRequest_events:
  assumes "sendRequest w this body s = (res, s0)"
  shows "trace s0 = trace s @ new_events s s0"
    and "list_all is_dispatch_event (new_events s s0)"
    and "ledger s0 = ledger s" and "execs s0 = execs s" and "rands s0 = rands s"
proof -
  from sendRequest_loop_events [of w this body "receiversUrl (config this)" s] assms
  obtain evs where evs: "trace s0 = trace s @ evs" "list_all is_dispatch_event evs"
    by (auto simp: sendRequest_def)
  from new_events_intro [OF evs(1)] evs(2)
  show "trace s0 = trace s @ new_events s s0" and "list_all is_dispatch_event (new_events s s0)"
    by simp_all
  from sendRequest_loop_frame [of w this body "receiversUrl (config this)" s] assms
  show "ledger s0 = ledger s" and "execs s0 = execs s" and "rands s0 = rands s"
    by (simp_all add: sendRequest_def)
qed

lemma deleteAttemptRecord_new_events:
  "trace (deleteAttemptRecord w k s) = trace s @ new_events s (deleteAttemptRecord w k s)"
  "ladder (new_events s (deleteAttemptRecord w k s)) = []"
  "\<not> succeeded (new_events s (deleteAttemptRecord w k s))"
proof -
  from deleteAttemptRecord_events [where w = w and k = k and s = s] obtain evs where
    evs: "trace (deleteAttemptRecord w k s) = trace s @ evs" "ladder evs = []" "\<not> succeeded evs"
    by blast
  from new_events_intro [OF evs(1)] evs(2,3)
  show "trace (deleteAttemptRecord w k s) = trace s @ new_events s (deleteAttemptRecord w k s)"
    "ladder (new_events s (deleteAttemptRecord w k s)) = []"
    "\<not> succeeded (new_events s (deleteAttemptRecord w k s))"
    by simp_all
qed

lemma makeHttpRequest_try_Some:
  assumes "makeHttpRequest_try w this body a k s = (Some e, s1)"
  shows "trace s1 = trace s @ new_events s s1"
    and "ladder (new_events s s1) = []"
    and "\<not> succeeded (new_events s s1)"
proof -
  obtain res s0 where sr: "sendRequest w this body s = (res, s0)"
    by (cases "sendRequest w this body s")
  note ev = sendRequest_events [OF sr]
  note quiet = dispatch_events_silent [OF ev(2)]
  have "trace s1 = trace s @ new_events s s1 \<and> ladder (new_events s s1) = [] \<and>
        \<not> succeeded (new_events s s1)"
  proof (cases res)
    case (Inl e')
    with assms sr have "s1 = s0"
      by (simp add: makeHttpRequest_try_def)
    with ev(1) quiet show ?thesis by simp
  next
    case (Inr resp)
    show ?thesis
    proof (cases resp)
      case (Some r)
      with assms sr Inr show ?thesis
        by (simp add: makeHttpRequest_try_def Let_def)
    next
      case None
      show ?thesis
      proof (cases "1 < a \<and> truthy k")
        case False
        with assms sr Inr None have "s1 = s0"
          by (auto simp: makeHttpRequest_try_def Let_def)
        with ev(1) quiet show ?thesis by simp
      next
        case True
        with assms sr Inr None have s1: "s1 = deleteAttemptRecord w k s0"
          by (auto simp: makeHttpRequest_try_def Let_def)
        from new_events_trans [OF ev(1), of s1] deleteAttemptRecord_new_events [where w = w and k = k and s = s0] quiet
        show ?thesis
          by (simp add: s1)
      qed
    qed
  qed
  then show "trace s1 = trace s @ new_events s s1"
    and "ladder (new_events s s1) = []"
    and "\<not> succeeded (new_events s s1)"
    by simp_all
qed

lemma console_log_success:
  "trace (console_log (RequestSuccessful st) s) =
     trace s @ new_events s (console_log (RequestSuccessful st) s)"
  "ladder (new_events s (console_log (RequestSuccessful st) s)) = []"
  "succeeded (new_events s (console_log (RequestSuccessful st) s))"
  "statements (new_events s (console_log (RequestSuccessful st) s)) = []"
  by (simp_all add: console_log_def new_events_def ladder_def succeeded_def statements_def)

lemma makeHttpRequest_try_None:
  assumes "makeHttpRequest_try w this body a k s = (None, s1)"
  shows "trace s1 = trace s @ new_events s s1"
    and "ladder (new_events s s1) = []"
    and "succeeded (new_events s s1)"
proof -
  obtain res s0 where sr: "sendRequest w this body s = (res, s0)"
    by (cases "sendRequest w this body s")
  note ev = sendRequest_events [OF sr]
  note quiet = dispatch_events_silent [OF ev(2)]
  from assms sr obtain r where res: "res = Inr (Some r)"
    by (cases res; cases "projr res") (auto simp: makeHttpRequest_try_def Let_def)
  have "trace s1 = trace s @ new_events s s1 \<and> ladder (new_events s s1) = [] \<and>
        succeeded (new_events s s1)"
  proof (cases "1 < a \<and> truthy k")
    case False
    with assms sr res have s1: "s1 = console_log (RequestSuccessful (status r)) s0"
      by (auto simp: makeHttpRequest_try_def Let_def)
    from new_events_trans [OF ev(1), of s1] console_log_success [where st = "status r" and s = s0] quiet
    show ?thesis
      by (simp add: s1)
  next
    case True
    with assms sr res have s1: "s1 = console_log (RequestSuccessful (status r))
                                      (deleteAttemptRecord w k s0)"
      by (auto simp: makeHttpRequest_try_def Let_def)
    note d = deleteAttemptRecord_new_events [where w = w and k = k and s = s0]
    note t1 = new_events_trans [OF ev(1) d(1)]
    from new_events_trans [OF t1(2), of s1]
      console_log_success [where st = "status r" and s = "deleteAttemptRecord w k s0"] quiet d t1
    show ?thesis
      by (simp add: s1)
  qed
  then show "trace s1 = trace s @ new_events s s1"
    and "ladder (new_events s s1) = []"
    and "succeeded (new_events s s1)"
    by simp_all
qed

section \<open>makeHttpRequest never raises\<close>

lemma makeHttpRequest_returns: "fst (makeHttpRequest w this body a k s) = Inr ()"
proof (induction "nat (maxAttempts (config this) - int a)" arbitrary: a k s)
  case 0
  with makeHttpRequest_cases [of w this body a k s] show ?case
    by auto
next
  case (Suc n)
  then have "n = nat (maxAttempts (config this) - int (Suc a))"
    by simp
  from Suc.hyps(1) [OF this] makeHttpRequest_cases [of w this body a k s] show ?case
    by auto
qed

section \<open>The ladder of a delivery\<close>

lemma rungs_Cons: "a < k \<Longrightarrow> rungs a k = [Failed a, Wait (backoff_wait a)] @ rungs (Suc a) k"
  by (simp add: rungs_def upt_conv_Cons)

lemma rungs_self [simp]: "rungs a a = []"
  by (simp add: rungs_def)

lemma makeHttpRequest_ladder:
  "\<exists>k. a \<le> k \<and> (k = a \<or> int k \<le> maxAttempts (config this)) \<and>
     trace (snd (makeHttpRequest w this body a key s)) =
       trace s @ new_events s (snd (makeHttpRequest w this body a key s)) \<and>
     (ladder (new_events s (snd (makeHttpRequest w this body a key s))) = rungs a k \<and>
        succeeded (new_events s (snd (makeHttpRequest w this body a key s)))
      \<or>
      ladder (new_events s (snd (makeHttpRequest w this body a key s))) = rungs a k @ [Failed k] \<and>
        \<not> int k < maxAttempts (config this) \<and>
        \<not> succeeded (new_events s (snd (makeHttpRequest w this body a key s))))"
proof (induction "nat (maxAttempts (config this) - int a)" arbitrary: a key s)
  case 0
  then have stop: "\<not> int a < maxAttempts (config this)" by simp
  from makeHttpRequest_cases [of w this body a key s] stop
  consider (finished) s1 where "makeHttpRequest_try w this body a key s = (None, s1)"
      "makeHttpRequest w this body a key s = (Inr (), s1)"
    | (stop) e s1 where "makeHttpRequest_try w this body a key s = (Some e, s1)"
      "makeHttpRequest w this body a key s = (Inr (), given_up w this body a key e s1)"
    by blast
  then show ?case
  proof cases
    case finished
    have run: "snd (makeHttpRequest w this body a key s) = s1"
      by (simp add: finished(2))
    from makeHttpRequest_try_None [OF finished(1)] show ?thesis
      unfolding run by (intro exI [of _ a]) simp
  next
    case stop
    have run: "snd (makeHttpRequest w this body a key s) = given_up w this body a key e s1"
      by (simp add: stop(2))
    note t = makeHttpRequest_try_Some [OF stop(1)]
    from given_up_ladder [of w this body a key e s1] obtain evs where
      evs: "trace (given_up w this body a key e s1) = trace s1 @ evs"
        "ladder evs = [Failed a]" "\<not> succeeded evs" by blast
    note g = new_events_intro [OF evs(1)]
    note t2 = new_events_trans [OF t(1) g(1)]
    have "ladder (new_events s (given_up w this body a key e s1)) = [Failed a]"
      and "\<not> succeeded (new_events s (given_up w this body a key e s1))"
      using t2(1) t(2,3) g(2) evs(2,3) by simp_all
    with t2(2) \<open>\<not> int a < maxAttempts (config this)\<close> show ?thesis
      unfolding run by (intro exI [of _ a]) simp
  qed
next
  case (Suc n)
  then have lt: "int a < maxAttempts (config this)" by simp
  from Suc.hyps(2) have n: "n = nat (maxAttempts (config this) - int (Suc a))"
    by simp
  from makeHttpRequest_cases [of w this body a key s] lt
  consider (finished) s1 where "makeHttpRequest_try w this body a key s = (None, s1)"
      "makeHttpRequest w this body a key s = (Inr (), s1)"
    | (again) e s1 where "makeHttpRequest_try w this body a key s = (Some e, s1)"
      "makeHttpRequest w this body a key s =
         makeHttpRequest w this body (Suc a) (Some (fst (catch_entry w a key e s1)))
           (before_retry w this body a key e s1)"
    by blast
  then show ?case
  proof cases
    case finished
    have run: "snd (makeHttpRequest w this body a key s) = s1"
      by (simp add: finished(2))
    from makeHttpRequest_try_None [OF finished(1)] show ?thesis
      unfolding run by (intro exI [of _ a]) simp
  next
    case again
    let ?s2 = "before_retry w this body a key e s1"
    let ?k2 = "Some (fst (catch_entry w a key e s1))"
    let ?s' = "snd (makeHttpRequest w this body (Suc a) ?k2 ?s2)"
    have run: "snd (makeHttpRequest w this body a key s) = ?s'"
      by (simp only: again(2))
    note t = makeHttpRequest_try_Some [OF again(1)]
    from before_retry_ladder [of w this body a key e s1] obtain evs where
      evs: "trace ?s2 = trace s1 @ evs"
        "ladder evs = [Failed a, Wait (backoff_wait a)]" "\<not> succeeded evs" by blast
    note b = new_events_intro [OF evs(1)]
    note t2 = new_events_trans [OF t(1) b(1)]
    from Suc.hyps(1) [OF n, of ?k2 ?s2] obtain k where
      k: "Suc a \<le> k" "k = Suc a \<or> int k \<le> maxAttempts (config this)"
        "trace ?s' = trace ?s2 @ new_events ?s2 ?s'"
        "ladder (new_events ?s2 ?s') = rungs (Suc a) k \<and> succeeded (new_events ?s2 ?s') \<or>
         ladder (new_events ?s2 ?s') = rungs (Suc a) k @ [Failed k] \<and>
           \<not> int k < maxAttempts (config this) \<and> \<not> succeeded (new_events ?s2 ?s')"
      by blast
    note t3 = new_events_trans [OF t2(2) k(3)]
    have ak: "a < k" using k(1) by simp
    have bound: "k = a \<or> int k \<le> maxAttempts (config this)"
      using k(2) lt by auto
    have lad: "ladder (new_events s ?s') =
                 [Failed a, Wait (backoff_wait a)] @ ladder (new_events ?s2 ?s')"
      using t3(1) t2(1) t(2) b(2) evs(2) by simp
    have suc: "succeeded (new_events s ?s') = succeeded (new_events ?s2 ?s')"
      using t3(1) t2(1) t(3) b(2) evs(3) by simp
    have dis: "ladder (new_events s ?s') = rungs a k \<and> succeeded (new_events s ?s') \<or>
         ladder (new_events s ?s') = rungs a k @ [Failed k] \<and>
           \<not> int k < maxAttempts (config this) \<and> \<not> succeeded (new_events s ?s')"
      using k(4) unfolding lad suc rungs_Cons [OF ak] by simp
    have "a \<le> k" using ak by simp
    with bound t3(2) dis show ?thesis
      unfolding run by (intro exI [of _ k]) blast
  qed
qed

section \<open>Unfolding retryHttpRequest\<close>

lemma retryHttpRequest_cases:
  "(\<exists>s1. retryHttpRequest_try w this rid body s = (None, s1) \<and>
         retryHttpRequest w this rid a body s = (Inr (), s1)) \<or>
   (\<exists>e s1. retryHttpRequest_try w this rid body s = (Some e, s1) \<and>
           int a < maxAttempts (config this) \<and>
           retryHttpRequest w this rid a body s =
             retryHttpRequest w this rid (Suc a) body (resume_backoff a e s1)) \<or>
   (\<exists>e s1. retryHttpRequest_try w this rid body s = (Some e, s1) \<and>
           \<not> int a < maxAttempts (config this) \<and>
           retryHttpRequest w this rid a body s =
             (Inl reference_error, console_error (RetryAttemptFailed a (message e)) s1))"
proof (cases "retryHttpRequest_try w this rid body s")
  case (Pair oe s1)
  show ?thesis
  proof (cases oe)
    case None
    with Pair show ?thesis
      by (subst retryHttpRequest.simps) simp
  next
    case (Some e)
    show ?thesis
    proof (cases "int a < maxAttempts (config this)")
      case True
      with Pair Some show ?thesis
        by (subst retryHttpRequest.simps) (simp add: Let_def resume_backoff_def)
    next
      case False
      with Pair Some show ?thesis
        by (subst retryHttpRequest.simps) (simp add: Let_def)
    qed
  qed
qed

lemma retryHttpRequest_try_Some:
  assumes "retryHttpRequest_try w this rid body s = (Some e, s1)"
  shows "trace s1 = trace s @ new_events s s1"
    and "ladder (new_events s s1) = []"
    and "\<not> succeeded (new_events s s1)"
    and "statements (new_events s s1) = []"
    and "ledger s1 = ledger s"
    and "execs s1 = execs s"
proof -
  obtain res s0 where sr: "sendRequest w this body s = (res, s0)"
    by (cases "sendRequest w this body s")
  note ev = sendRequest_events [OF sr]
  note quiet = dispatch_events_silent [OF ev(2)]
  from assms sr have "s1 = s0"
    by (cases res; cases "projr res") (auto simp: retryHttpRequest_try_def)
  with ev quiet show "trace s1 = trace s @ new_events s s1"
    and "ladder (new_events s s1) = []"
    and "\<not> succeeded (new_events s s1)"
    and "statements (new_events s s1) = []"
    and "ledger s1 = ledger s"
    and "execs s1 = execs s"
    by simp_all
qed

lemma retryHttpRequest_try_None:
  assumes "retryHttpRequest_try w this rid body s = (None, s1)"
  shows "trace s1 = trace s @ new_events s s1"
    and "ladder (new_events s s1) = []"
    and "succeeded (new_events s s1)"
proof -
  obtain res s0 where sr: "sendRequest w this body s = (res, s0)"
    by (cases "sendRequest w this body s")
  note ev = sendRequest_events [OF sr]
  note quiet = dispatch_events_silent [OF ev(2)]
  from assms sr obtain r where res: "res = Inr (Some r)"
    by (cases res; cases "projr res") (auto simp: retryHttpRequest_try_def)
  let ?s2 = "console_log (RequestSuccessful (status r)) s0"
  from assms sr res have s1: "s1 = deleteAttemptRecord w (Some rid) ?s2"
    by (simp add: retryHttpRequest_try_def)
  note c = console_log_success [where st = "status r" and s = s0]
  note t1 = new_events_trans [OF ev(1) c(1)]
  note d = deleteAttemptRecord_new_events [where w = w and k = "Some rid" and s = ?s2]
  note t2 = new_events_trans [OF t1(2) d(1)]
  from t2 t1 c d quiet
  show "trace s1 = trace s @ new_events s s1"
    and "ladder (new_events s s1) = []"
    and "succeeded (new_events s s1)"
    unfolding s1 by simp_all
qed

lemma resume_backoff_events:
  "trace (resume_backoff a e s1) = trace s1 @ new_events s1 (resume_backoff a e s1)"
  "ladder (new_events s1 (resume_backoff a e s1)) = [Failed a, Wait (backoff_wait a)]"
  "\<not> succeeded (new_events s1 (resume_backoff a e s1))"
  "statements (new_events s1 (resume_backoff a e s1)) = []"
  "ledger (resume_backoff a e s1) = ledger s1"
  "execs (resume_backoff a e s1) = execs s1"
  by (simp_all add: resume_backoff_def Let_def sleep_def console_log_def console_error_def
        new_events_def ladder_def succeeded_def statements_def backoff_wait_def)

lemma resume_stop_events:
  "trace (console_error (RetryAttemptFailed a m) s1) =
     trace s1 @ new_events s1 (console_error (RetryAttemptFailed a m) s1)"
  "ladder (new_events s1 (console_error (RetryAttemptFailed a m) s1)) = [Failed a]"
  "\<not> succeeded (new_events s1 (console_error (RetryAttemptFailed a m) s1))"
  "statements (new_events s1 (console_error (RetryAttemptFailed a m) s1)) = []"
  "ledger (console_error (RetryAttemptFailed a m) s1) = ledger s1"
  by (simp_all add: console_error_def new_events_def ladder_def succeeded_def statements_def)

text \<open>
  A resumed delivery either succeeds and returns, or uses up its attempts, sends nothing
  to the store and raises the ReferenceError.
\<close>

lemma retryHttpRequest_run:
  "\<exists>k. a \<le> k \<and> (k = a \<or> int k \<le> maxAttempts (config this)) \<and>
     trace (snd (retryHttpRequest w this rid a body s)) =
       trace s @ new_events s (snd (retryHttpRequest w this rid a body s)) \<and>
     (ladder (new_events s (snd (retryHttpRequest w this rid a body s))) = rungs a k \<and>
        succeeded (new_events s (snd (retryHttpRequest w this rid a body s))) \<and>
        fst (retryHttpRequest w this rid a body s) = Inr ()
      \<or>
      ladder (new_events s (snd (retryHttpRequest w this rid a body s))) = rungs a k @ [Failed k] \<and>
        \<not> int k < maxAttempts (config this) \<and>
        \<not> succeeded (new_events s (snd (retryHttpRequest w this rid a body s))) \<and>
        fst (retryHttpRequest w this rid a body s) = Inl reference_error \<and>
        statements (new_events s (snd (retryHttpRequest w this rid a body s))) = [] \<and>
        ledger (snd (retryHttpRequest w this rid a body s)) = ledger s)"
proof (induction "nat (maxAttempts (config this) - int a)" arbitrary: a s)
  case 0
  then have stop: "\<not> int a < maxAttempts (config this)" by simp
  from retryHttpRequest_cases [of w this rid body s a] stop
  consider (finished) s1 where "retryHttpRequest_try w this rid body s = (None, s1)"
      "retryHttpRequest w this rid a body s = (Inr (), s1)"
    | (stop) e s1 where "retryHttpRequest_try w this rid body s = (Some e, s1)"
      "retryHttpRequest w this rid a body s =
         (Inl reference_error, console_error (RetryAttemptFailed a (message e)) s1)"
    by blast
  then show ?case
  proof cases
    case finished
    from retryHttpRequest_try_None [OF finished(1)] show ?thesis
      unfolding finished(2) by (intro exI [of _ a]) simp
  next
    case stop
    let ?s2 = "console_error (RetryAttemptFailed a (message e)) s1"
    note t = retryHttpRequest_try_Some [OF stop(1)]
    note g = resume_stop_events [where a = a and m = "message e" and ?s1.0 = s1]
    note t2 = new_events_trans [OF t(1) g(1)]
    have "ladder (new_events s ?s2) = [Failed a]"
      and "\<not> succeeded (new_events s ?s2)"
      and "statements (new_events s ?s2) = []"
      and "ledger ?s2 = ledger s"
      using t2(1) t g by simp_all
    with t2(2) \<open>\<not> int a < maxAttempts (config this)\<close> show ?thesis
      unfolding stop(2) by (intro exI [of _ a]) simp
  qed
next
  case (Suc n)
  then have lt: "int a < maxAttempts (config this)" by simp
  from Suc.hyps(2) have n: "n = nat (maxAttempts (config this) - int (Suc a))"
    by simp
  from retryHttpRequest_cases [of w this rid body s a] lt
  consider (finished) s1 where "retryHttpRequest_try w this rid body s = (None, s1)"
      "retryHttpRequest w this rid a body s = (Inr (), s1)"
    | (again) e s1 where "retryHttpRequest_try w this rid body s = (Some e, s1)"
      "retryHttpRequest w this rid a body s =
         retryHttpRequest w this rid (Suc a) body (resume_backoff a e s1)"
    by blast
  then show ?case
  proof cases
    case finished
    from retryHttpRequest_try_None [OF finished(1)] show ?thesis
      unfolding finished(2) by (intro exI [of _ a]) simp
  next
    case again
    let ?s2 = "resume_backoff a e s1"
    let ?r = "retryHttpRequest w this rid (Suc a) body ?s2"
    let ?s' = "snd ?r"
    note t = retryHttpRequest_try_Some [OF again(1)]
    note b = resume_backoff_events [where a = a and e = e and ?s1.0 = s1]
    note t2 = new_events_trans [OF t(1) b(1)]
    from Suc.hyps(1) [OF n, of ?s2] obtain k where
      k: "Suc a \<le> k" "k = Suc a \<or> int k \<le> maxAttempts (config this)"
        "trace ?s' = trace ?s2 @ new_events ?s2 ?s'"
        "ladder (new_events ?s2 ?s') = rungs (Suc a) k \<and> succeeded (new_events ?s2 ?s') \<and>
           fst ?r = Inr () \<or>
         ladder (new_events ?s2 ?s') = rungs (Suc a) k @ [Failed k] \<and>
           \<not> int k < maxAttempts (config this) \<and> \<not> succeeded (new_events ?s2 ?s') \<and>
           fst ?r = Inl reference_error \<and> statements (new_events ?s2 ?s') = [] \<and>
           ledger ?s' = ledger ?s2"
      by blast
    note t3 = new_events_trans [OF t2(2) k(3)]
    have ak: "a < k" using k(1) by simp
    have bound: "k = a \<or> int k \<le> maxAttempts (config this)"
      using k(2) lt by auto
    have lad: "ladder (new_events s ?s') =
                 [Failed a, Wait (backoff_wait a)] @ ladder (new_events ?s2 ?s')"
      using t3(1) t2(1) t(2) b(2) by simp
    have suc: "succeeded (new_events s ?s') = succeeded (new_events ?s2 ?s')"
      using t3(1) t2(1) t(3) b(3) by simp
    have st: "statements (new_events s ?s') = statements (new_events ?s2 ?s')"
      using t3(1) t2(1) t(4) b(4) by simp
    have led: "ledger ?s2 = ledger s"
      using t(5) b(5) by simp
    have dis: "ladder (new_events s ?s') = rungs a k \<and> succeeded (new_events s ?s') \<and>
           fst ?r = Inr () \<or>
         ladder (new_events s ?s') = rungs a k @ [Failed k] \<and>
           \<not> int k < maxAttempts (config this) \<and> \<not> succeeded (new_events s ?s') \<and>
           fst ?r = Inl reference_error \<and> statements (new_events s ?s') = [] \<and>
           ledger ?s' = ledger s"
      using k(4) unfolding lad suc st led rungs_Cons [OF ak] by simp
    have "a \<le> k" using ak by simp
    with bound t3(2) dis show ?thesis
      unfolding again(2) by (intro exI [of _ k]) blast
  qed
qed

lemma statements_simps [simp]:
  "statements [] = []" "statements (ev # evs) = stmt_of ev @ statements evs"
  by (simp_all add: statements_def)

lemma ladder_simps [simp]:
  "ladder [] = []" "ladder (ev # evs) = rung_of ev @ ladder evs"
  by (simp_all add: ladder_def)

lemma succeeded_simps [simp]:
  "succeeded [] = False" "succeeded (ev # evs) = (is_success ev \<or> succeeded evs)"
  by (simp_all add: succeeded_def)

section \<open>The ledger during a delivery, with a store that accepts every statement\<close>

lemma makeHttpRequest_try_Some_ok:
  assumes "makeHttpRequest_try w this body a k s = (Some e, s1)"
    and "receiversUrl (config this) \<noteq> []"
  shows "fst (sendRequest w this body s) = Inl e"
    and "statements (new_events s s1) = []"
    and "ledger s1 = ledger s"
    and "rands s1 = rands s"
proof -
  obtain res s0 where sr: "sendRequest w this body s = (res, s0)"
    by (cases "sendRequest w this body s")
  note ev = sendRequest_events [OF sr]
  note quiet = dispatch_events_silent [OF ev(2)]
  from sendRequest_loop_nonempty [OF assms(2), of w this body s] sr
  have "res \<noteq> Inr None"
    by (simp add: sendRequest_def)
  with assms(1) sr have "res = Inl e \<and> s1 = s0"
    by (cases res; cases "projr res") (auto simp: makeHttpRequest_try_def Let_def)
  with sr ev quiet show "fst (sendRequest w this body s) = Inl e"
    and "statements (new_events s s1) = []"
    and "ledger s1 = ledger s"
    and "rands s1 = rands s"
    by simp_all
qed

lemma makeHttpRequest_try_None_first:
  assumes "makeHttpRequest_try w this body 1 k s = (None, s1)"
  shows "\<not> isl (fst (sendRequest w this body s))"
    and "statements (new_events s s1) = []"
    and "ledger s1 = ledger s"
proof -
  obtain res s0 where sr: "sendRequest w this body s = (res, s0)"
    by (cases "sendRequest w this body s")
  note ev = sendRequest_events [OF sr]
  note quiet = dispatch_events_silent [OF ev(2)]
  from assms sr obtain r where res: "res = Inr (Some r)"
    by (cases res; cases "projr res") (auto simp: makeHttpRequest_try_def Let_def)
  with assms sr have s1: "s1 = console_log (RequestSuccessful (status r)) s0"
    by (auto simp: makeHttpRequest_try_def Let_def)
  note c = console_log_success [where st = "status r" and s = s0]
  note t1 = new_events_trans [OF ev(1) c(1)]
  from sr res show "\<not> isl (fst (sendRequest w this body s))"
    by simp
  from t1 c quiet ev show "statements (new_events s s1) = []" and "ledger s1 = ledger s"
    unfolding s1 by (simp_all add: console_log_def)
qed

lemma makeHttpRequest_try_None_later:
  assumes "makeHttpRequest_try w this body a (Some rid) s = (None, s1)"
    and "1 < a" and "rid \<noteq> []" and "execute_fails w (execs s) = None"
  shows "statements (new_events s s1) = [DeleteRow rid]"
    and "ledger s1 = run_stmt (DeleteRow rid) (ledger s)"
proof -
  obtain res s0 where sr: "sendRequest w this body s = (res, s0)"
    by (cases "sendRequest w this body s")
  note ev = sendRequest_events [OF sr]
  note quiet = dispatch_events_silent [OF ev(2)]
  from assms(1) sr obtain r where res: "res = Inr (Some r)"
    by (cases res; cases "projr res") (auto simp: makeHttpRequest_try_def Let_def)
  let ?s2 = "deleteAttemptRecord w (Some rid) s0"
  from assms sr res have s1: "s1 = console_log (RequestSuccessful (status r)) ?s2"
    by (auto simp: makeHttpRequest_try_def Let_def truthy_def)
  have ok: "execute_fails w (execs s0) = None"
    using assms(4) ev(4) by simp
  note d = deleteAttemptRecord_ok [OF ok assms(3)]
  note dn = new_events_intro [OF d(2)]
  note t1 = new_events_trans [OF ev(1) dn(1)]
  note c = console_log_success [where st = "status r" and s = ?s2]
  note t2 = new_events_trans [OF t1(2) c(1)]
  from t2 t1 c dn quiet show "statements (new_events s s1) = [DeleteRow rid]"
    unfolding s1 by simp
  from d(1) ev(3) show "ledger s1 = run_stmt (DeleteRow rid) (ledger s)"
    unfolding s1 by (simp add: console_log_def)
qed

lemma before_retry_later:
  assumes "a \<noteq> 1"
  shows "statements (new_events s1 (before_retry w this body a k e s1)) = []"
    and "ledger (before_retry w this body a k e s1) = ledger s1"
    and "trace (before_retry w this body a k e s1) =
           trace s1 @ new_events s1 (before_retry w this body a k e s1)"
    and "\<not> succeeded (new_events s1 (before_retry w this body a k e s1))"
proof -
  have tr: "trace (before_retry w this body a k e s1) =
      trace s1 @ [LogError (AttemptFailed a (message e) (statusCode_of e)),
                  Log (RetryingAfter (backoff_delay a)), Sleep (backoff_delay a)]"
    using assms
    by (simp add: before_retry_def Let_def settle_def sleep_def console_log_def catch_entry_frame)
  note n = new_events_intro [OF tr]
  from n show "trace (before_retry w this body a k e s1) =
           trace s1 @ new_events s1 (before_retry w this body a k e s1)"
    by simp
  from n(2) show "statements (new_events s1 (before_retry w this body a k e s1)) = []"
    and "\<not> succeeded (new_events s1 (before_retry w this body a k e s1))"
    by simp_all
  from assms show "ledger (before_retry w this body a k e s1) = ledger s1"
    by (simp add: before_retry_def Let_def settle_def sleep_def console_log_def catch_entry_frame)
qed

lemma before_retry_first:
  assumes "execute_fails w (execs s1) = None"
  shows "statements (new_events s1 (before_retry w this body 1 k e s1)) =
           [InsertRow \<lparr>request_id = fst (catch_entry w 1 k e s1), attempt_number = 1,
                       error = statusCode_of e, payload = json_stringify w body,
                       abandoned = 0, hostname = this_hostname this\<rparr>]"
    and "ledger (before_retry w this body 1 k e s1) =
           ledger s1 @ [\<lparr>request_id = fst (catch_entry w 1 k e s1), attempt_number = 1,
                       error = statusCode_of e, payload = json_stringify w body,
                       abandoned = 0, hostname = this_hostname this\<rparr>]"
    and "trace (before_retry w this body 1 k e s1) =
           trace s1 @ new_events s1 (before_retry w this body 1 k e s1)"
    and "\<not> succeeded (new_events s1 (before_retry w this body 1 k e s1))"
proof -
  let ?row = "\<lparr>request_id = fst (catch_entry w 1 k e s1), attempt_number = 1,
               error = statusCode_of e, payload = json_stringify w body,
               abandoned = 0, hostname = this_hostname this\<rparr>"
  let ?s3 = "console_log InsertingRecord (snd (catch_entry w 1 k e s1))"
  have ok: "execute_fails w (execs ?s3) = None"
    using assms by (simp add: console_log_def catch_entry_frame)
  note i = insertAttemptRecord_ok
    [OF ok, where this = this and rid = "fst (catch_entry w 1 k e s1)" and a = 1
       and c = "statusCode_of e" and body = body and ab = 0]
  have tr: "trace (before_retry w this body 1 k e s1) =
      trace s1 @ [LogError (AttemptFailed 1 (message e) (statusCode_of e)),
                  Log InsertingRecord, Execute (InsertRow ?row),
                  Log (RetryingAfter (backoff_delay 1)), Sleep (backoff_delay 1)]"
    using i(2,4) by (simp add: before_retry_def Let_def settle_def sleep_def console_log_def catch_entry_frame)
  note n = new_events_intro [OF tr]
  from n show "trace (before_retry w this body 1 k e s1) =
           trace s1 @ new_events s1 (before_retry w this body 1 k e s1)"
    by simp
  from n(2) show "statements (new_events s1 (before_retry w this body 1 k e s1)) = [InsertRow ?row]"
    and "\<not> succeeded (new_events s1 (before_retry w this body 1 k e s1))"
    by simp_all
  from i(1,4) show "ledger (before_retry w this body 1 k e s1) = ledger s1 @ [?row]"
    by (simp add: before_retry_def Let_def settle_def sleep_def console_log_def catch_entry_frame)
qed

lemma given_up_later:
  assumes "a \<noteq> 1" and "execute_fails w (execs s1) = None"
  shows "statements (new_events s1 (given_up w this body a k e s1)) =
           [UpdateRow 1 a (statusCode_of e) (fst (catch_entry w a k e s1))]"
    and "ledger (given_up w this body a k e s1) =
           run_stmt (UpdateRow 1 a (statusCode_of e) (fst (catch_entry w a k e s1))) (ledger s1)"
    and "trace (given_up w this body a k e s1) =
           trace s1 @ new_events s1 (given_up w this body a k e s1)"
    and "\<not> succeeded (new_events s1 (given_up w this body a k e s1))"
proof -
  let ?q = "UpdateRow 1 a (statusCode_of e) (fst (catch_entry w a k e s1))"
  have ok: "execute_fails w (execs (snd (catch_entry w a k e s1))) = None"
    using assms(2) by (simp add: catch_entry_frame)
  note u = abandonAttemptRecord_ok
    [OF ok, where key = "fst (catch_entry w a k e s1)" and a = a and c = "statusCode_of e"]
  have tr: "trace (given_up w this body a k e s1) =
      trace s1 @ [LogError (AttemptFailed a (message e) (statusCode_of e)),
                  Execute ?q, LogError MaxAttemptsReached]"
    using u(2,4) assms(1)
    by (simp add: given_up_def Let_def settle_def console_error_def catch_entry_frame)
  note n = new_events_intro [OF tr]
  from n show "trace (given_up w this body a k e s1) =
           trace s1 @ new_events s1 (given_up w this body a k e s1)"
    by simp
  from n(2) show "statements (new_events s1 (given_up w this body a k e s1)) = [?q]"
    and "\<not> succeeded (new_events s1 (given_up w this body a k e s1))"
    by simp_all
  from u(1,4) assms(1) show "ledger (given_up w this body a k e s1) = run_stmt ?q (ledger s1)"
    by (simp add: given_up_def Let_def settle_def console_error_def catch_entry_frame)
qed

lemma given_up_first:
  assumes "execute_fails w (execs s1) = None"
  shows "statements (new_events s1 (given_up w this body 1 k e s1)) =
           [InsertRow \<lparr>request_id = fst (catch_entry w 1 k e s1), attempt_number = 1,
                       error = statusCode_of e, payload = json_stringify w body,
                       abandoned = 1, hostname = this_hostname this\<rparr>]"
    and "ledger (given_up w this body 1 k e s1) =
           ledger s1 @ [\<lparr>request_id = fst (catch_entry w 1 k e s1), attempt_number = 1,
                       error = statusCode_of e, payload = json_stringify w body,
                       abandoned = 1, hostname = this_hostname this\<rparr>]"
    and "trace (given_up w this body 1 k e s1) =
           trace s1 @ new_events s1 (given_up w this body 1 k e s1)"
    and "\<not> succeeded (new_events s1 (given_up w this body 1 k e s1))"
proof -
  let ?row = "\<lparr>request_id = fst (catch_entry w 1 k e s1), attempt_number = 1,
               error = statusCode_of e, payload = json_stringify w body,
               abandoned = 1, hostname = this_hostname this\<rparr>"
  let ?s3 = "console_log InsertingRecord (snd (catch_entry w 1 k e s1))"
  have ok: "execute_fails w (execs ?s3) = None"
    using assms by (simp add: console_log_def catch_entry_frame)
  note i = insertAttemptRecord_ok
    [OF ok, where this = this and rid = "fst (catch_entry w 1 k e s1)" and a = 1
       and c = "statusCode_of e" and body = body and ab = 1]
  have tr: "trace (given_up w this body 1 k e s1) =
      trace s1 @ [LogError (AttemptFailed 1 (message e) (statusCode_of e)),
                  Log InsertingRecord, Execute (InsertRow ?row), LogError MaxAttemptsReached]"
    using i(2,4)
    by (simp add: given_up_def Let_def settle_def console_error_def console_log_def catch_entry_frame)
  note n = new_events_intro [OF tr]
  from n show "trace (given_up w this body 1 k e s1) =
           trace s1 @ new_events s1 (given_up w this body 1 k e s1)"
    by simp
  from n(2) show "statements (new_events s1 (given_up w this body 1 k e s1)) = [InsertRow ?row]"
    and "\<not> succeeded (new_events s1 (given_up w this body 1 k e s1))"
    by simp_all
  from i(1,4) show "ledger (given_up w this body 1 k e s1) = ledger s1 @ [?row]"
    by (simp add: given_up_def Let_def settle_def console_error_def console_log_def catch_entry_frame)
qed

text \<open>
  C3. A dispatch over a non-empty receiver list tries the receivers in list order with
  nothing between them but the console lines; it returns the first answer and tries no
  receiver after it; when every receiver fails it raises the failure of the last one.
\<close>

theorem sendRequest_failover:
  assumes "receiversUrl (config this) = us" and "us \<noteq> []"
  shows
    "((\<forall>i<length us. isl (axios_post w (posts s + i) (us ! i) body (timeout (config this)))) \<longrightarrow>
        fst (sendRequest w this body s) =
          Inl (projl (axios_post w (posts s + (length us - 1)) (last us) body (timeout (config this)))) \<and>
        new_events s (snd (sendRequest w this body s)) = concat (map (failed_try this body) us)) \<and>
     (k < length us \<and>
      (\<forall>i<k. isl (axios_post w (posts s + i) (us ! i) body (timeout (config this)))) \<and>
      axios_post w (posts s + k) (us ! k) body (timeout (config this)) = Inr r \<longrightarrow>
        fst (sendRequest w this body s) = Inr (Some r) \<and>
        new_events s (snd (sendRequest w this body s)) =
          concat (map (failed_try this body) (take k us)) @ good_try this body (us ! k))"
proof (intro conjI impI)
  assume "\<forall>i<length us. isl (axios_post w (posts s + i) (us ! i) body (timeout (config this)))"
  from sendRequest_loop_all_fail [OF assms(2) this]
  show "fst (sendRequest w this body s) =
          Inl (projl (axios_post w (posts s + (length us - 1)) (last us) body (timeout (config this))))"
    and "new_events s (snd (sendRequest w this body s)) = concat (map (failed_try this body) us)"
    by (simp_all add: sendRequest_def assms(1) new_events_def)
next
  assume h: "k < length us \<and>
      (\<forall>i<k. isl (axios_post w (posts s + i) (us ! i) body (timeout (config this)))) \<and>
      axios_post w (posts s + k) (us ! k) body (timeout (config this)) = Inr r"
  then have "fst (sendRequest_loop w this body us s) = Inr (Some r) \<and>
     trace (snd (sendRequest_loop w this body us s)) =
       trace s @ concat (map (failed_try this body) (take k us)) @ good_try this body (us ! k)"
    using sendRequest_loop_success [of k us w s body this r] by blast
  then show "fst (sendRequest w this body s) = Inr (Some r)"
    and "new_events s (snd (sendRequest w this body s)) =
          concat (map (failed_try this body) (take k us)) @ good_try this body (us ! k)"
    by (simp_all add: sendRequest_def assms(1) new_events_def)
qed

theorem sendRequest_failover_witness:
  "fst (sendRequest (demo_world (up_after 1)) (demo_requester [''http://a'', ''http://b''] 5)
          ''hello'' fresh_state) = Inr (Some \<lparr>status = 200\<rparr>) \<and>
   new_events fresh_state
     (snd (sendRequest (demo_world (up_after 1)) (demo_requester [''http://a'', ''http://b''] 5)
          ''hello'' fresh_state)) =
     [Log (SendingRequest ''http://a''), Post ''http://a'' ''hello'' 5000,
      Log (RequestFailed ''http://a''),
      Log (SendingRequest ''http://b''), Post ''http://b'' ''hello'' 5000] \<and>
   fst (sendRequest (demo_world always_503) (demo_requester [''http://a'', ''http://b''] 5)
          ''hello'' fresh_state) = Inl err_503 \<and>
   new_events fresh_state
     (snd (sendRequest (demo_world always_503) (demo_requester [''http://a'', ''http://b''] 5)
          ''hello'' fresh_state)) =
     [Log (SendingRequest ''http://a''), Post ''http://a'' ''hello'' 5000,
      Log (RequestFailed ''http://a''),
      Log (SendingRequest ''http://b''), Post ''http://b'' ''hello'' 5000,
      Log (RequestFailed ''http://b'')]"
proof -
  have us: "receiversUrl (config (demo_requester [''http://a'', ''http://b''] 5)) =
              [''http://a'', ''http://b'']"
    by (simp add: demo_requester_def)
  have ne: "[''http://a'', ''http://b''] \<noteq> []"
    by simp
  have good: "(1::nat) < length [''http://a'', ''http://b''] \<and>
      (\<forall>i<1. isl (axios_post (demo_world (up_after 1)) (posts fresh_state + i)
                     ([''http://a'', ''http://b''] ! i) ''hello''
                     (timeout (config (demo_requester [''http://a'', ''http://b''] 5))))) \<and>
      axios_post (demo_world (up_after 1)) (posts fresh_state + 1)
        ([''http://a'', ''http://b''] ! 1) ''hello''
        (timeout (config (demo_requester [''http://a'', ''http://b''] 5))) = Inr \<lparr>status = 200\<rparr>"
    by (simp add: demo_world_def up_after_def fresh_state_def)
  have bad: "\<forall>i<length [''http://a'', ''http://b''].
      isl (axios_post (demo_world always_503) (posts fresh_state + i)
             ([''http://a'', ''http://b''] ! i) ''hello''
             (timeout (config (demo_requester [''http://a'', ''http://b''] 5))))"
    by (simp add: demo_world_def always_503_def)
  from sendRequest_failover [OF us ne, where w = "demo_world (up_after 1)" and s = fresh_state
         and body = "''hello''" and k = 1 and r = "\<lparr>status = 200\<rparr>"] good
  have one: "fst (sendRequest (demo_world (up_after 1)) (demo_requester [''http://a'', ''http://b''] 5)
          ''hello'' fresh_state) = Inr (Some \<lparr>status = 200\<rparr>) \<and>
   new_events fresh_state
     (snd (sendRequest (demo_world (up_after 1)) (demo_requester [''http://a'', ''http://b''] 5)
          ''hello'' fresh_state)) =
     [Log (SendingRequest ''http://a''), Post ''http://a'' ''hello'' 5000,
      Log (RequestFailed ''http://a''),
      Log (SendingRequest ''http://b''), Post ''http://b'' ''hello'' 5000]"
    by (simp add: failed_try_def good_try_def demo_requester_def)
  from sendRequest_failover [OF us ne, where w = "demo_world always_503" and s = fresh_state
         and body = "''hello''"] bad
  have two: "fst (sendRequest (demo_world always_503) (demo_requester [''http://a'', ''http://b''] 5)
          ''hello'' fresh_state) = Inl err_503 \<and>
   new_events fresh_state
     (snd (sendRequest (demo_world always_503) (demo_requester [''http://a'', ''http://b''] 5)
          ''hello'' fresh_state)) =
     [Log (SendingRequest ''http://a''), Post ''http://a'' ''hello'' 5000,
      Log (RequestFailed ''http://a''),
      Log (SendingRequest ''http://b''), Post ''http://b'' ''hello'' 5000,
      Log (RequestFailed ''http://b'')]"
    by (simp add: failed_try_def demo_requester_def demo_world_def always_503_def)
  from one two show ?thesis by simp
qed

lemma later_attempts:
  assumes U: "receiversUrl (config this) \<noteq> []"
    and S: "\<forall>n. execute_fails w n = None"
    and rid: "rid \<noteq> []"
  shows "1 < a \<Longrightarrow> int a \<le> maxAttempts (config this) \<Longrightarrow>
     trace (snd (makeHttpRequest w this body a (Some rid) s)) =
       trace s @ new_events s (snd (makeHttpRequest w this body a (Some rid) s)) \<and>
     (succeeded (new_events s (snd (makeHttpRequest w this body a (Some rid) s))) \<and>
        statements (new_events s (snd (makeHttpRequest w this body a (Some rid) s))) =
          [DeleteRow rid] \<and>
        ledger (snd (makeHttpRequest w this body a (Some rid) s)) =
          run_stmt (DeleteRow rid) (ledger s)
      \<or>
      \<not> succeeded (new_events s (snd (makeHttpRequest w this body a (Some rid) s))) \<and>
        (\<exists>c. statements (new_events s (snd (makeHttpRequest w this body a (Some rid) s))) =
                [UpdateRow 1 (nat (maxAttempts (config this))) c rid] \<and>
             ledger (snd (makeHttpRequest w this body a (Some rid) s)) =
                run_stmt (UpdateRow 1 (nat (maxAttempts (config this))) c rid) (ledger s)))"
proof (induction "nat (maxAttempts (config this) - int a)" arbitrary: a s)
  case 0
  then have stop: "\<not> int a < maxAttempts (config this)" and am: "nat (maxAttempts (config this)) = a"
    by simp_all
  have a1: "a \<noteq> 1" using "0.prems"(1) by simp
  have tk: "truthy (Some rid)" using rid by (simp add: truthy_def)
  from S have ok: "\<And>st. execute_fails w (execs st) = None" by simp
  from makeHttpRequest_cases [of w this body a "Some rid" s] stop
  consider (finished) s1 where "makeHttpRequest_try w this body a (Some rid) s = (None, s1)"
      "makeHttpRequest w this body a (Some rid) s = (Inr (), s1)"
    | (stop) e s1 where "makeHttpRequest_try w this body a (Some rid) s = (Some e, s1)"
      "makeHttpRequest w this body a (Some rid) s = (Inr (), given_up w this body a (Some rid) e s1)"
    by blast
  then show ?case
  proof cases
    case finished
    from makeHttpRequest_try_None [OF finished(1)]
      makeHttpRequest_try_None_later [OF finished(1) "0.prems"(1) rid ok]
    show ?thesis
      unfolding finished(2) by simp
  next
    case stop
    let ?s2 = "given_up w this body a (Some rid) e s1"
    note t = makeHttpRequest_try_Some [OF stop(1)]
    note to = makeHttpRequest_try_Some_ok [OF stop(1) U]
    note g = given_up_later [OF a1 ok, where this = this and body = body and k = "Some rid"
               and e = e and ?s1.0 = s1]
    have key: "fst (catch_entry w a (Some rid) e s1) = rid"
      using catch_entry_key(2) [OF tk] by simp
    note t2 = new_events_trans [OF t(1) g(3)]
    have "\<not> succeeded (new_events s ?s2)"
      and "statements (new_events s ?s2) = [UpdateRow 1 a (statusCode_of e) rid]"
      and "ledger ?s2 = run_stmt (UpdateRow 1 a (statusCode_of e) rid) (ledger s)"
      using t2(1) t(3) to(2,3) g(1,2,4) key by simp_all
    with t2(2) show ?thesis
      unfolding stop(2) am by simp
  qed
next
  case (Suc n)
  then have lt: "int a < maxAttempts (config this)" by simp
  from Suc.hyps(2) have n: "n = nat (maxAttempts (config this) - int (Suc a))"
    by simp
  have a1: "a \<noteq> 1" using Suc.prems(1) by simp
  have tk: "truthy (Some rid)" using rid by (simp add: truthy_def)
  from S have ok: "\<And>st. execute_fails w (execs st) = None" by simp
  from makeHttpRequest_cases [of w this body a "Some rid" s] lt
  consider (finished) s1 where "makeHttpRequest_try w this body a (Some rid) s = (None, s1)"
      "makeHttpRequest w this body a (Some rid) s = (Inr (), s1)"
    | (again) e s1 where "makeHttpRequest_try w this body a (Some rid) s = (Some e, s1)"
      "makeHttpRequest w this body a (Some rid) s =
         makeHttpRequest w this body (Suc a) (Some (fst (catch_entry w a (Some rid) e s1)))
           (before_retry w this body a (Some rid) e s1)"
    by blast
  then show ?case
  proof cases
    case finished
    from makeHttpRequest_try_None [OF finished(1)]
      makeHttpRequest_try_None_later [OF finished(1) Suc.prems(1) rid ok]
    show ?thesis
      unfolding finished(2) by simp
  next
    case again
    let ?s2 = "before_retry w this body a (Some rid) e s1"
    have key: "fst (catch_entry w a (Some rid) e s1) = rid"
      using catch_entry_key(2) [OF tk] by simp
    let ?s' = "snd (makeHttpRequest w this body (Suc a) (Some rid) ?s2)"
    have run: "snd (makeHttpRequest w this body a (Some rid) s) = ?s'"
      using again(2) key by simp
    note t = makeHttpRequest_try_Some [OF again(1)]
    note to = makeHttpRequest_try_Some_ok [OF again(1) U]
    note b = before_retry_later [OF a1, where w = w and this = this and body = body
               and k = "Some rid" and e = e and ?s1.0 = s1]
    note t2 = new_events_trans [OF t(1) b(3)]
    have p1: "1 < Suc a" using Suc.prems(1) by simp
    have p2: "int (Suc a) \<le> maxAttempts (config this)" using lt by simp
    note ih = Suc.hyps(1) [OF n p1 p2, of ?s2]
    from ih have ext: "trace ?s' = trace ?s2 @ new_events ?s2 ?s'" by simp
    note t3 = new_events_trans [OF t2(2) ext]
    have suc: "succeeded (new_events s ?s') = succeeded (new_events ?s2 ?s')"
      using t3(1) t2(1) t(3) b(4) by simp
    have st: "statements (new_events s ?s') = statements (new_events ?s2 ?s')"
      using t3(1) t2(1) to(2) b(1) by simp
    have led: "ledger ?s2 = ledger s"
      using to(3) b(2) by simp
    from ih t3(2) show ?thesis
      unfolding run suc st led by simp
  qed
qed

text \<open>Every way a delivery started at attempt 1 without a key can end.\<close>

lemma delivery_outcomes:
  assumes U: "receiversUrl (config this) \<noteq> []"
    and S: "\<forall>n. execute_fails w n = None"
  shows
    "trace (snd (makeHttpRequest w this body 1 None s)) =
       trace s @ new_events s (snd (makeHttpRequest w this body 1 None s)) \<and>
     (\<not> isl (fst (sendRequest w this body s)) \<and>
        succeeded (new_events s (snd (makeHttpRequest w this body 1 None s))) \<and>
        statements (new_events s (snd (makeHttpRequest w this body 1 None s))) = [] \<and>
        ledger (snd (makeHttpRequest w this body 1 None s)) = ledger s
      \<or>
      (\<exists>e. fst (sendRequest w this body s) = Inl e \<and>
        succeeded (new_events s (snd (makeHttpRequest w this body 1 None s))) \<and>
        statements (new_events s (snd (makeHttpRequest w this body 1 None s))) =
          [InsertRow (attempt_row w this (delivery_id w s) 1 (statusCode_of e) body 0),
           DeleteRow (delivery_id w s)] \<and>
        ledger (snd (makeHttpRequest w this body 1 None s)) =
          run_stmt (DeleteRow (delivery_id w s))
            (ledger s @ [attempt_row w this (delivery_id w s) 1 (statusCode_of e) body 0]))
      \<or>
      (\<exists>e c. fst (sendRequest w this body s) = Inl e \<and> 1 < maxAttempts (config this) \<and>
        \<not> succeeded (new_events s (snd (makeHttpRequest w this body 1 None s))) \<and>
        statements (new_events s (snd (makeHttpRequest w this body 1 None s))) =
          [InsertRow (attempt_row w this (delivery_id w s) 1 (statusCode_of e) body 0),
           UpdateRow 1 (nat (maxAttempts (config this))) c (delivery_id w s)] \<and>
        ledger (snd (makeHttpRequest w this body 1 None s)) =
          run_stmt (UpdateRow 1 (nat (maxAttempts (config this))) c (delivery_id w s))
            (ledger s @ [attempt_row w this (delivery_id w s) 1 (statusCode_of e) body 0]))
      \<or>
      (\<exists>e. fst (sendRequest w this body s) = Inl e \<and> \<not> 1 < maxAttempts (config this) \<and>
        \<not> succeeded (new_events s (snd (makeHttpRequest w this body 1 None s))) \<and>
        statements (new_events s (snd (makeHttpRequest w this body 1 None s))) =
          [InsertRow (attempt_row w this (delivery_id w s) 1 (statusCode_of e) body 1)] \<and>
        ledger (snd (makeHttpRequest w this body 1 None s)) =
          ledger s @ [attempt_row w this (delivery_id w s) 1 (statusCode_of e) body 1]))"
proof -
  from S have ok: "\<And>st. execute_fails w (execs st) = None" by simp
  have nk: "\<not> truthy None" by (simp add: truthy_def)
  from makeHttpRequest_cases [of w this body 1 None s]
  consider (finished) s1 where "makeHttpRequest_try w this body 1 None s = (None, s1)"
      "makeHttpRequest w this body 1 None s = (Inr (), s1)"
    | (again) e s1 where "makeHttpRequest_try w this body 1 None s = (Some e, s1)"
      "int 1 < maxAttempts (config this)"
      "makeHttpRequest w this body 1 None s =
         makeHttpRequest w this body (Suc 1) (Some (fst (catch_entry w 1 None e s1)))
           (before_retry w this body 1 None e s1)"
    | (stop) e s1 where "makeHttpRequest_try w this body 1 None s = (Some e, s1)"
      "\<not> int 1 < maxAttempts (config this)"
      "makeHttpRequest w this body 1 None s = (Inr (), given_up w this body 1 None e s1)"
    by blast
  then show ?thesis
  proof cases
    case finished
    from makeHttpRequest_try_None [OF finished(1)] makeHttpRequest_try_None_first [OF finished(1)]
    show ?thesis
      unfolding finished(2) by simp
  next
    case stop
    let ?s2 = "given_up w this body 1 None e s1"
    note t = makeHttpRequest_try_Some [OF stop(1)]
    note to = makeHttpRequest_try_Some_ok [OF stop(1) U]
    have key: "fst (catch_entry w 1 None e s1) = delivery_id w s"
      using catch_entry_key(3) [OF nk to(4)] by (simp add: delivery_id_def)
    note g = given_up_first [OF ok, where this = this and body = body and k = None
               and e = e and ?s1.0 = s1]
    note t2 = new_events_trans [OF t(1) g(3)]
    have "\<not> succeeded (new_events s ?s2)"
      and "statements (new_events s ?s2) =
             [InsertRow (attempt_row w this (delivery_id w s) 1 (statusCode_of e) body 1)]"
      and "ledger ?s2 = ledger s @ [attempt_row w this (delivery_id w s) 1 (statusCode_of e) body 1]"
      using t2(1) t(3) to(2,3) g(1,2,4) key by (simp_all add: attempt_row_def)
    with t2(2) to(1) stop(2) show ?thesis
      unfolding stop(3) by simp
  next
    case again
    let ?s2 = "before_retry w this body 1 None e s1"
    let ?rid = "delivery_id w s"
    let ?row = "attempt_row w this ?rid 1 (statusCode_of e) body 0"
    note t = makeHttpRequest_try_Some [OF again(1)]
    note to = makeHttpRequest_try_Some_ok [OF again(1) U]
    have key: "fst (catch_entry w 1 None e s1) = ?rid"
      using catch_entry_key(3) [OF nk to(4)] by (simp add: delivery_id_def)
    have rid: "?rid \<noteq> []"
      using catch_entry_key(1) [of w 1 None e s1] key by simp
    let ?s' = "snd (makeHttpRequest w this body (Suc 1) (Some ?rid) ?s2)"
    have run: "snd (makeHttpRequest w this body 1 None s) = ?s'"
      using again(3) key by simp
    note b = before_retry_first [OF ok, where this = this and body = body and k = None
               and e = e and ?s1.0 = s1]
    note t2 = new_events_trans [OF t(1) b(3)]
    have p1: "1 < Suc 1" by simp
    have p2: "int (Suc 1) \<le> maxAttempts (config this)" using again(2) by simp
    note la = later_attempts [OF U S rid p1 p2, of body ?s2]
    from la have ext: "trace ?s' = trace ?s2 @ new_events ?s2 ?s'" by simp
    note t3 = new_events_trans [OF t2(2) ext]
    have suc: "succeeded (new_events s ?s') = succeeded (new_events ?s2 ?s')"
      using t3(1) t2(1) t(3) b(4) by simp
    have st: "statements (new_events s ?s') = InsertRow ?row # statements (new_events ?s2 ?s')"
      using t3(1) t2(1) to(2) b(1) key by (simp add: attempt_row_def)
    have led: "ledger ?s2 = ledger s @ [?row]"
      using to(3) b(2) key by (simp add: attempt_row_def)
    have m1: "1 < maxAttempts (config this)" using again(2) by simp
    from la have "succeeded (new_events s ?s') \<and>
          statements (new_events s ?s') = [InsertRow ?row, DeleteRow ?rid] \<and>
          ledger ?s' = run_stmt (DeleteRow ?rid) (ledger s @ [?row])
        \<or> \<not> succeeded (new_events s ?s') \<and>
          (\<exists>c. statements (new_events s ?s') =
                  [InsertRow ?row, UpdateRow 1 (nat (maxAttempts (config this))) c ?rid] \<and>
               ledger ?s' = run_stmt (UpdateRow 1 (nat (maxAttempts (config this))) c ?rid)
                              (ledger s @ [?row]))"
      unfolding suc st led by simp
    with t3(2) to(1) m1 show ?thesis
      unfolding run by blast
  qed
qed

section \<open>The concrete scenarios, evaluated\<close>

lemma demo_world_simps:
  "axios_post (demo_world f) = (\<lambda>n u b t. f n)"
  "execute_fails (demo_world f) = (\<lambda>n. None)"
  "json_stringify (demo_world f) = quoted"
  "json_parse (demo_world f) = unquoted"
  by (simp_all add: demo_world_def)

lemma unquoted_quoted [simp]: "unquoted (quoted b) = Inr b"
  by (simp add: unquoted_def quoted_def)

lemma backoff_delay_small [simp]:
  "backoff_delay (Suc 0) = Finite 2000" "backoff_delay 1 = Finite 2000"
  "backoff_delay 2 = Finite 4000" "backoff_delay 3 = Finite 8000"
  "backoff_delay 4 = Finite 16000"
  by (simp_all add: backoff_delay_def)

lemma timer_wait_small [simp]:
  "timer_wait (Finite 2000) = 2000" "timer_wait (Finite 4000) = 4000"
  "timer_wait (Finite 8000) = 8000" "timer_wait (Finite 16000) = 16000"
  by (simp_all add: timer_wait_def)

lemma demo_requester_simps:
  "receiversUrl (config (demo_requester us m)) = us"
  "timeout (config (demo_requester us m)) = 5000"
  "maxAttempts (config (demo_requester us m)) = m"
  "this_hostname (demo_requester us m) = ''NODE-1''"
  by (simp_all add: demo_requester_def)

lemma demo_generateUUID:
  "generateUUID (demo_world f) s = (demo_uuid, s\<lparr>rands := rands s + 31\<rparr>)"
  by (simp add: generateUUID_def Let_def demo_world_def demo_uuid_def hex_digit_def)

lemma demo_uuid_nonempty [simp]: "demo_uuid \<noteq> []"
  by (simp add: demo_uuid_def)

lemmas run_defs =
  makeHttpRequest_try_def retryHttpRequest_try_def sendRequest_def post_def
  console_log_def console_error_def sleep_def truthy_def insertAttemptRecord_def
  abandonAttemptRecord_def deleteAttemptRecord_def settle_def execute_def run_stmt_def
  statusCode_of_def
  Let_def demo_world_simps demo_requester_simps demo_generateUUID

lemma run_always_503:
  "makeHttpRequest (demo_world always_503) (demo_requester [''http://a''] 2) ''hello'' 1 None
     fresh_state =
   (Inr (),
    \<lparr>ledger = [\<lparr>request_id = demo_uuid, attempt_number = 2, error = JNum 503,
                 payload = quoted ''hello'', abandoned = 1, hostname = ''NODE-1''\<rparr>],
     trace =
       [Log (SendingRequest ''http://a''), Post ''http://a'' ''hello'' 5000,
        Log (RequestFailed ''http://a''),
        LogError (AttemptFailed 1 ''Request failed with status code 503'' (JNum 503)),
        Log InsertingRecord,
        Execute (InsertRow \<lparr>request_id = demo_uuid, attempt_number = 1, error = JNum 503,
                 payload = quoted ''hello'', abandoned = 0, hostname = ''NODE-1''\<rparr>),
        Log (RetryingAfter (Finite 2000)), Sleep (Finite 2000),
        Log (SendingRequest ''http://a''), Post ''http://a'' ''hello'' 5000,
        Log (RequestFailed ''http://a''),
        LogError (AttemptFailed 2 ''Request failed with status code 503'' (JNum 503)),
        Execute (UpdateRow 1 2 (JNum 503) demo_uuid),
        LogError MaxAttemptsReached],
     posts = 2, execs = 2, rands = 31\<rparr>)"
  by (simp add: makeHttpRequest.simps run_defs always_503_def err_503_def fresh_state_def)

lemma run_up_after_1:
  "makeHttpRequest (demo_world (up_after 1)) (demo_requester [''http://a''] 3) ''hello'' 1 None
     fresh_state =
   (Inr (),
    \<lparr>ledger = [],
     trace =
       [Log (SendingRequest ''http://a''), Post ''http://a'' ''hello'' 5000,
        Log (RequestFailed ''http://a''),
        LogError (AttemptFailed 1 ''Request failed with status code 503'' (JNum 503)),
        Log InsertingRecord,
        Execute (InsertRow \<lparr>request_id = demo_uuid, attempt_number = 1, error = JNum 503,
                 payload = quoted ''hello'', abandoned = 0, hostname = ''NODE-1''\<rparr>),
        Log (RetryingAfter (Finite 2000)), Sleep (Finite 2000),
        Log (SendingRequest ''http://a''), Post ''http://a'' ''hello'' 5000,
        Execute (DeleteRow demo_uuid),
        Log (RequestSuccessful 200)],
     posts = 2, execs = 2, rands = 31\<rparr>)"
  by (simp add: makeHttpRequest.simps run_defs up_after_def err_503_def fresh_state_def)

lemma fresh_id_rows:
  assumes "rid \<notin> request_id ` set rows"
  shows "run_stmt (UpdateRow ab a c rid) rows = rows"
    and "filter (\<lambda>r. request_id r = rid) rows = []"
proof -
  from assms have "\<And>r. r \<in> set rows \<Longrightarrow> request_id r \<noteq> rid"
    by auto
  then show "run_stmt (UpdateRow ab a c rid) rows = rows"
    and "filter (\<lambda>r. request_id r = rid) rows = []"
    by (simp_all add: run_stmt_def map_idI filter_empty_conv)
qed

lemma failed_attempt_on_ladder:
  assumes "makeHttpRequest_try w this body a key s = (Some e, s1)"
  shows "ladder (new_events s (snd (makeHttpRequest w this body a key s))) \<noteq> []"
proof -
  note t = makeHttpRequest_try_Some [OF assms]
  from makeHttpRequest_cases [of w this body a key s] assms
  consider (again) "makeHttpRequest w this body a key s =
         makeHttpRequest w this body (Suc a) (Some (fst (catch_entry w a key e s1)))
           (before_retry w this body a key e s1)"
    | (stop) "makeHttpRequest w this body a key s = (Inr (), given_up w this body a key e s1)"
    by auto
  then show ?thesis
  proof cases
    case stop
    from given_up_ladder [of w this body a key e s1] obtain evs where
      evs: "trace (given_up w this body a key e s1) = trace s1 @ evs" "ladder evs = [Failed a]"
      by blast
    note g = new_events_intro [OF evs(1)]
    from new_events_trans(1) [OF t(1) g(1)] g(2) evs(2) show ?thesis
      unfolding stop by simp
  next
    case again
    let ?s2 = "before_retry w this body a key e s1"
    let ?s' = "snd (makeHttpRequest w this body (Suc a) (Some (fst (catch_entry w a key e s1))) ?s2)"
    from before_retry_ladder [of w this body a key e s1] obtain evs where
      evs: "trace ?s2 = trace s1 @ evs" "ladder evs = [Failed a, Wait (backoff_wait a)]"
      by blast
    note b = new_events_intro [OF evs(1)]
    note t2 = new_events_trans [OF t(1) b(1)]
    from makeHttpRequest_ladder [of "Suc a" this w body "Some (fst (catch_entry w a key e s1))" ?s2]
    have ext: "trace ?s' = trace ?s2 @ new_events ?s2 ?s'"
      by blast
    from new_events_trans(1) [OF t2(2) ext] t2(1) b(2) evs(2) show ?thesis
      unfolding again by simp
  qed
qed

lemma exhausted_ladder:
  assumes M: "1 \<le> maxAttempts (config this)"
    and fail: "\<not> succeeded (new_events s (snd (makeHttpRequest w this body 1 key s)))"
  shows "ladder (new_events s (snd (makeHttpRequest w this body 1 key s))) =
           rungs 1 (nat (maxAttempts (config this))) @ [Failed (nat (maxAttempts (config this)))]"
proof -
  from makeHttpRequest_ladder [of 1 this w body key s] fail obtain k where
    k: "1 \<le> k" "k = 1 \<or> int k \<le> maxAttempts (config this)"
      "ladder (new_events s (snd (makeHttpRequest w this body 1 key s))) = rungs 1 k @ [Failed k]"
      "\<not> int k < maxAttempts (config this)"
    by blast
  from k(1,2,4) M have "k = nat (maxAttempts (config this))"
    by auto
  with k(3) show ?thesis by simp
qed

lemma recovered_ladder:
  assumes first: "isl (fst (sendRequest w this body s))"
    and later: "succeeded (new_events s (snd (makeHttpRequest w this body 1 key s)))"
  shows "\<exists>k. 1 < k \<and> int k \<le> maxAttempts (config this) \<and>
           ladder (new_events s (snd (makeHttpRequest w this body 1 key s))) = rungs 1 k"
proof -
  obtain oe s1 where tr: "makeHttpRequest_try w this body 1 key s = (oe, s1)"
    by (cases "makeHttpRequest_try w this body 1 key s")
  from first makeHttpRequest_try_None_first(1) [of w this body key s s1] tr
  obtain e where "oe = Some e"
    by (cases oe) auto
  with tr failed_attempt_on_ladder [of w this body 1 key s e s1]
  have ne: "ladder (new_events s (snd (makeHttpRequest w this body 1 key s))) \<noteq> []"
    by simp
  from makeHttpRequest_ladder [of 1 this w body key s] later obtain k where
    k: "1 \<le> k" "k = 1 \<or> int k \<le> maxAttempts (config this)"
      "ladder (new_events s (snd (makeHttpRequest w this body 1 key s))) = rungs 1 k"
    by blast
  from ne k(3) have "k \<noteq> 1" by auto
  with k show ?thesis
    by (intro exI [of _ k]) auto
qed

lemma exhausted_delivery_ledger:
  assumes U: "receiversUrl (config this) \<noteq> []"
    and S: "\<forall>n. execute_fails w n = None"
    and M: "1 \<le> maxAttempts (config this)"
    and fail: "\<not> succeeded (new_events s (snd (makeHttpRequest w this body 1 None s)))"
    and fresh: "delivery_id w s \<notin> request_id ` set (ledger s)"
  shows "\<exists>c c0.
     ledger (snd (makeHttpRequest w this body 1 None s)) =
       ledger s @ [attempt_row w this (delivery_id w s) (nat (maxAttempts (config this))) c body 1] \<and>
     filter (\<lambda>r. request_id r = delivery_id w s) (ledger (snd (makeHttpRequest w this body 1 None s))) =
       [attempt_row w this (delivery_id w s) (nat (maxAttempts (config this))) c body 1] \<and>
     statements (new_events s (snd (makeHttpRequest w this body 1 None s))) =
       (if maxAttempts (config this) = 1
        then [InsertRow (attempt_row w this (delivery_id w s) 1 c body 1)]
        else [InsertRow (attempt_row w this (delivery_id w s) 1 c0 body 0),
              UpdateRow 1 (nat (maxAttempts (config this))) c (delivery_id w s)])"
proof -
  let ?s' = "snd (makeHttpRequest w this body 1 None s)"
  let ?rid = "delivery_id w s"
  let ?M = "maxAttempts (config this)"
  note fr = fresh_id_rows [OF fresh]
  from delivery_outcomes [OF U S, of body s] fail
  consider (many) e c where "1 < ?M"
      "statements (new_events s ?s') =
         [InsertRow (attempt_row w this ?rid 1 (statusCode_of e) body 0),
          UpdateRow 1 (nat ?M) c ?rid]"
      "ledger ?s' = run_stmt (UpdateRow 1 (nat ?M) c ?rid)
                      (ledger s @ [attempt_row w this ?rid 1 (statusCode_of e) body 0])"
    | (single) e where "\<not> 1 < ?M"
      "statements (new_events s ?s') = [InsertRow (attempt_row w this ?rid 1 (statusCode_of e) body 1)]"
      "ledger ?s' = ledger s @ [attempt_row w this ?rid 1 (statusCode_of e) body 1]"
    by blast
  then show ?thesis
  proof cases
    case many
    have "run_stmt (UpdateRow 1 (nat ?M) c ?rid)
            (ledger s @ [attempt_row w this ?rid 1 (statusCode_of e) body 0]) =
          run_stmt (UpdateRow 1 (nat ?M) c ?rid) (ledger s) @
            [attempt_row w this ?rid (nat ?M) c body 1]"
      by (simp add: run_stmt_def attempt_row_def)
    with many(3) fr(1) [of 1 "nat ?M" c]
    have led: "ledger ?s' = ledger s @ [attempt_row w this ?rid (nat ?M) c body 1]"
      by simp
    have "filter (\<lambda>r. request_id r = ?rid) (ledger ?s') =
            [attempt_row w this ?rid (nat ?M) c body 1]"
      unfolding led using fr(2) by (simp add: attempt_row_def)
    with led many(1,2) show ?thesis
      by (intro exI [of _ c] exI [of _ "statusCode_of e"]) simp
  next
    case single
    with M have m1: "?M = 1" by simp
    have "filter (\<lambda>r. request_id r = ?rid) (ledger ?s') =
            [attempt_row w this ?rid 1 (statusCode_of e) body 1]"
      unfolding single(3) using fr(2) by (simp add: attempt_row_def)
    with single(2,3) m1 show ?thesis
      by (intro exI [of _ "statusCode_of e"] exI [of _ JNull]) simp
  qed
qed

text \<open>
  C1. A delivery none of whose attempts succeeds has failed at the attempts 1 to
  \<open>maxAttempts\<close> and ends with exactly one record for its request identifier, flagged
  abandoned, with the attempt number \<open>maxAttempts\<close>: the record is inserted already
  abandoned when \<open>maxAttempts = 1\<close>, and otherwise inserted pending at the first failure
  and updated at the last. (The store accepts every statement, the receiver list is not
  empty, \<open>maxAttempts\<close> is at least 1 and the identifier drawn is not yet in the table.)
\<close>

theorem exhausted_delivery_abandoned:
  assumes U: "receiversUrl (config this) \<noteq> []"
    and S: "\<forall>n. execute_fails w n = None"
    and M: "1 \<le> maxAttempts (config this)"
    and fail: "\<not> succeeded (new_events s (snd (makeHttpRequest w this body 1 None s)))"
    and fresh: "delivery_id w s \<notin> request_id ` set (ledger s)"
  shows "ladder (new_events s (snd (makeHttpRequest w this body 1 None s))) =
           rungs 1 (nat (maxAttempts (config this))) @ [Failed (nat (maxAttempts (config this)))] \<and>
   (\<exists>c c0.
     ledger (snd (makeHttpRequest w this body 1 None s)) =
       ledger s @ [attempt_row w this (delivery_id w s) (nat (maxAttempts (config this))) c body 1] \<and>
     filter (\<lambda>r. request_id r = delivery_id w s) (ledger (snd (makeHttpRequest w this body 1 None s))) =
       [attempt_row w this (delivery_id w s) (nat (maxAttempts (config this))) c body 1] \<and>
     statements (new_events s (snd (makeHttpRequest w this body 1 None s))) =
       (if maxAttempts (config this) = 1
        then [InsertRow (attempt_row w this (delivery_id w s) 1 c body 1)]
        else [InsertRow (attempt_row w this (delivery_id w s) 1 c0 body 0),
              UpdateRow 1 (nat (maxAttempts (config this))) c (delivery_id w s)]))"
  using exhausted_ladder [OF M fail] exhausted_delivery_ledger [OF U S M fail fresh]
  by (rule conjI)

theorem exhausted_delivery_abandoned_witness:
  "ladder (new_events fresh_state
      (snd (makeHttpRequest (demo_world always_503) (demo_requester [''http://a''] 2)
                    ''hello'' 1 None fresh_state))) =
     rungs 1 (nat (maxAttempts (config (demo_requester [''http://a''] 2)))) @
       [Failed (nat (maxAttempts (config (demo_requester [''http://a''] 2))))] \<and>
   (\<exists>c c0.
     ledger (snd (makeHttpRequest (demo_world always_503) (demo_requester [''http://a''] 2)
                    ''hello'' 1 None fresh_state)) =
       ledger fresh_state @
         [attempt_row (demo_world always_503) (demo_requester [''http://a''] 2)
            (delivery_id (demo_world always_503) fresh_state)
            (nat (maxAttempts (config (demo_requester [''http://a''] 2)))) c ''hello'' 1] \<and>
     filter (\<lambda>r. request_id r = delivery_id (demo_world always_503) fresh_state)
       (ledger (snd (makeHttpRequest (demo_world always_503) (demo_requester [''http://a''] 2)
                    ''hello'' 1 None fresh_state))) =
       [attempt_row (demo_world always_503) (demo_requester [''http://a''] 2)
            (delivery_id (demo_world always_503) fresh_state)
            (nat (maxAttempts (config (demo_requester [''http://a''] 2)))) c ''hello'' 1] \<and>
     statements (new_events fresh_state
        (snd (makeHttpRequest (demo_world always_503) (demo_requester [''http://a''] 2)
                    ''hello'' 1 None fresh_state))) =
       (if maxAttempts (config (demo_requester [''http://a''] 2)) = 1
        then [InsertRow (attempt_row (demo_world always_503) (demo_requester [''http://a''] 2)
                (delivery_id (demo_world always_503) fresh_state) 1 c ''hello'' 1)]
        else [InsertRow (attempt_row (demo_world always_503) (demo_requester [''http://a''] 2)
                (delivery_id (demo_world always_503) fresh_state) 1 c0 ''hello'' 0),
              UpdateRow 1 (nat (maxAttempts (config (demo_requester [''http://a''] 2)))) c
                (delivery_id (demo_world always_503) fresh_state)]))"
proof (rule exhausted_delivery_abandoned)
  show "receiversUrl (config (demo_requester [''http://a''] 2)) \<noteq> []"
    by (simp add: demo_requester_simps)
  show "\<forall>n. execute_fails (demo_world always_503) n = None"
    by (simp add: demo_world_simps)
  show "1 \<le> maxAttempts (config (demo_requester [''http://a''] 2))"
    by (simp add: demo_requester_simps)
  show "\<not> succeeded (new_events fresh_state
          (snd (makeHttpRequest (demo_world always_503) (demo_requester [''http://a''] 2)
                  ''hello'' 1 None fresh_state)))"
    unfolding run_always_503 by (simp add: new_events_def fresh_state_def)
  show "delivery_id (demo_world always_503) fresh_state \<notin> request_id ` set (ledger fresh_state)"
    by (simp add: fresh_state_def)
qed

lemma recovered_delivery_ledger:
  assumes U: "receiversUrl (config this) \<noteq> []"
    and S: "\<forall>n. execute_fails w n = None"
    and first: "isl (fst (sendRequest w this body s))"
    and later: "succeeded (new_events s (snd (makeHttpRequest w this body 1 None s)))"
  shows "\<exists>c.
     statements (new_events s (snd (makeHttpRequest w this body 1 None s))) =
       [InsertRow (attempt_row w this (delivery_id w s) 1 c body 0), DeleteRow (delivery_id w s)] \<and>
     ledger (snd (makeHttpRequest w this body 1 None s)) =
       filter (\<lambda>r. request_id r \<noteq> delivery_id w s) (ledger s) \<and>
     filter (\<lambda>r. request_id r = delivery_id w s)
       (ledger (snd (makeHttpRequest w this body 1 None s))) = []"
proof -
  let ?s' = "snd (makeHttpRequest w this body 1 None s)"
  let ?rid = "delivery_id w s"
  from delivery_outcomes [OF U S, of body s] first later
  obtain e where
    st: "statements (new_events s ?s') =
           [InsertRow (attempt_row w this ?rid 1 (statusCode_of e) body 0), DeleteRow ?rid]"
    and led: "ledger ?s' = run_stmt (DeleteRow ?rid)
                (ledger s @ [attempt_row w this ?rid 1 (statusCode_of e) body 0])"
    by auto
  have led': "ledger ?s' = filter (\<lambda>r. request_id r \<noteq> ?rid) (ledger s)"
    unfolding led by (simp add: run_stmt_def attempt_row_def)
  have "filter (\<lambda>r. request_id r = ?rid) (ledger ?s') = []"
    unfolding led' by (simp add: filter_empty_conv)
  with st led' show ?thesis
    by (intro exI [of _ "statusCode_of e"]) simp
qed

text \<open>
  C4. A delivery whose first attempt fails and one of whose later attempts succeeds
  (attempt \<open>k\<close>, after the failures and delays of the attempts 1 to \<open>k - 1\<close>) sends
  exactly two statements to the store: the INSERT of one record with attempt number 1
  and \<open>abandoned = 0\<close>, then the DELETE of that request identifier; no record with the
  identifier is left. (The store accepts every statement and the receiver list is not
  empty.)
\<close>

theorem recovered_delivery_deletes_record:
  assumes U: "receiversUrl (config this) \<noteq> []"
    and S: "\<forall>n. execute_fails w n = None"
    and first: "isl (fst (sendRequest w this body s))"
    and later: "succeeded (new_events s (snd (makeHttpRequest w this body 1 None s)))"
  shows "(\<exists>k. 1 < k \<and> int k \<le> maxAttempts (config this) \<and>
           ladder (new_events s (snd (makeHttpRequest w this body 1 None s))) = rungs 1 k) \<and>
   (\<exists>c.
     statements (new_events s (snd (makeHttpRequest w this body 1 None s))) =
       [InsertRow (attempt_row w this (delivery_id w s) 1 c body 0), DeleteRow (delivery_id w s)] \<and>
     ledger (snd (makeHttpRequest w this body 1 None s)) =
       filter (\<lambda>r. request_id r \<noteq> delivery_id w s) (ledger s) \<and>
     filter (\<lambda>r. request_id r = delivery_id w s)
       (ledger (snd (makeHttpRequest w this body 1 None s))) = [])"
  using recovered_ladder [OF first later] recovered_delivery_ledger [OF U S first later]
  by (rule conjI)

theorem recovered_delivery_deletes_record_witness:
  "(\<exists>k. 1 < k \<and> int k \<le> maxAttempts (config (demo_requester [''http://a''] 3)) \<and>
      ladder (new_events fresh_state
        (snd (makeHttpRequest (demo_world (up_after 1)) (demo_requester [''http://a''] 3)
                ''hello'' 1 None fresh_state))) = rungs 1 k) \<and>
   (\<exists>c.
     statements (new_events fresh_state
        (snd (makeHttpRequest (demo_world (up_after 1)) (demo_requester [''http://a''] 3)
                ''hello'' 1 None fresh_state))) =
       [InsertRow (attempt_row (demo_world (up_after 1)) (demo_requester [''http://a''] 3)
                     (delivery_id (demo_world (up_after 1)) fresh_state) 1 c ''hello'' 0),
        DeleteRow (delivery_id (demo_world (up_after 1)) fresh_state)] \<and>
     ledger (snd (makeHttpRequest (demo_world (up_after 1)) (demo_requester [''http://a''] 3)
                ''hello'' 1 None fresh_state)) =
       filter (\<lambda>r. request_id r \<noteq> delivery_id (demo_world (up_after 1)) fresh_state)
         (ledger fresh_state) \<and>
     filter (\<lambda>r. request_id r = delivery_id (demo_world (up_after 1)) fresh_state)
       (ledger (snd (makeHttpRequest (demo_world (up_after 1)) (demo_requester [''http://a''] 3)
                ''hello'' 1 None fresh_state))) = [])"
proof (rule recovered_delivery_deletes_record)
  show "receiversUrl (config (demo_requester [''http://a''] 3)) \<noteq> []"
    by (simp add: demo_requester_simps)
  show "\<forall>n. execute_fails (demo_world (up_after 1)) n = None"
    by (simp add: demo_world_simps)
  show "isl (fst (sendRequest (demo_world (up_after 1)) (demo_requester [''http://a''] 3)
                ''hello'' fresh_state))"
    by (simp add: run_defs up_after_def fresh_state_def)
  show "succeeded (new_events fresh_state
          (snd (makeHttpRequest (demo_world (up_after 1)) (demo_requester [''http://a''] 3)
                  ''hello'' 1 None fresh_state)))"
    unfolding run_up_after_1 by (simp add: new_events_def fresh_state_def)
qed

section \<open>The recovery scan\<close>

lemma retryHttpRequest_ext:
  "trace (snd (retryHttpRequest w this rid a body s)) =
     trace s @ new_events s (snd (retryHttpRequest w this rid a body s))"
  using retryHttpRequest_run [of a this w rid body s] by blast

lemma processRows_ext:
  "trace (snd (processRows w this rows s)) = trace s @ new_events s (snd (processRows w this rows s))"
proof (induction rows arbitrary: s)
  case Nil
  show ?case by (simp add: new_events_def)
next
  case (Cons r rows)
  show ?case
  proof (cases "json_parse w (payload r)")
    case (Inl e)
    then show ?thesis by (simp add: new_events_def)
  next
    case (Inr body)
    let ?run = "retryHttpRequest w this (request_id r) (attempt_number r) body s"
    note x = retryHttpRequest_ext [of w this "request_id r" "attempt_number r" body s]
    show ?thesis
    proof (cases "fst ?run")
      case (Inl e)
      then have "processRows w this (r # rows) s = (Inl e, snd ?run)"
        using Inr by (cases ?run) simp
      with x show ?thesis by simp
    next
      case (Inr u)
      then have p: "processRows w this (r # rows) s = processRows w this rows (snd ?run)"
        using \<open>json_parse w (payload r) = Inr body\<close> by (cases ?run) simp
      from new_events_trans [OF x Cons.IH [of "snd ?run"]] show ?thesis
        unfolding p by simp
    qed
  qed
qed

lemma processRows_ok:
  "fst (processRows w this rows s) = Inr () \<Longrightarrow>
   snd (processRows w this rows s) = resume_all w this rows s"
proof (induction rows arbitrary: s)
  case Nil
  show ?case by (simp add: resume_all_def)
next
  case (Cons r rows)
  from Cons.prems obtain body where body: "json_parse w (payload r) = Inr body"
    by (cases "json_parse w (payload r)") auto
  let ?run = "retryHttpRequest w this (request_id r) (attempt_number r) body s"
  from Cons.prems body have p: "processRows w this (r # rows) s = processRows w this rows (snd ?run)"
    by (cases ?run; cases "fst ?run") auto
  have "resume_all w this (r # rows) s = resume_all w this rows (snd ?run)"
    using body by (simp add: resume_all_def resume_row_def)
  with Cons.IH [of "snd ?run"] Cons.prems show ?case
    unfolding p by simp
qed

lemma select_ok:
  assumes "execute_fails w (execs s) = None"
  shows "fst (execute w SelectAll s) = Inr (ledger s)"
    and "trace (console_log ProcessingPending (snd (execute w SelectAll s))) =
           trace s @ [Execute SelectAll, Log ProcessingPending]"
  using assms by (simp_all add: execute_def run_stmt_def console_log_def)

text \<open>What the scan does once the SELECT has answered with at least one row.\<close>

lemma checkPendingRequests_rows:
  assumes "execute_fails w (execs s) = None" and "ledger s \<noteq> []"
  shows "checkPendingRequests w this s =
     (case processRows w this (ledger s)
             (console_log ProcessingPending (snd (execute w SelectAll s))) of
        (Inl e, s2) \<Rightarrow> (Inr (), console_error (ErrorProcessingPending (message e)) s2)
      | (Inr u, s2) \<Rightarrow> (Inr (), s2))"
proof -
  obtain res s1 where e: "execute w SelectAll s = (res, s1)"
    by (cases "execute w SelectAll s")
  with select_ok(1) [OF assms(1)] have "res = Inr (ledger s)"
    by simp
  with e assms(2) show ?thesis
    by (simp add: checkPendingRequests_def)
qed

lemma rungs_Failed: "Failed n \<in> set (rungs a k) \<Longrightarrow> a \<le> n"
  by (auto simp: rungs_def)

text \<open>
  C5, as amended. The scan (which the constructor does not start: the call is commented
  out) reads the whole table, with no condition on \<open>abandoned\<close>. Unless it reports an
  error while processing, it resumes every row the SELECT returned exactly once, in table
  order, abandoned rows like pending ones.
\<close>

theorem recovery_scan_resumes_every_row:
  assumes ok: "execute_fails w (execs s) = None"
    and rows: "ledger s \<noteq> []"
    and quiet: "\<not> list_ex is_scan_error (new_events s (snd (checkPendingRequests w this s)))"
  shows "snd (checkPendingRequests w this s) =
           resume_all w this (ledger s)
             (console_log ProcessingPending (snd (execute w SelectAll s)))"
proof -
  let ?s2 = "console_log ProcessingPending (snd (execute w SelectAll s))"
  let ?p = "processRows w this (ledger s) ?s2"
  note c = checkPendingRequests_rows [OF ok rows, of this]
  note x = processRows_ext [of w this "ledger s" ?s2]
  show ?thesis
  proof (cases "fst ?p")
    case (Inr u)
    then have "snd (checkPendingRequests w this s) = snd ?p"
      unfolding c by (cases ?p) simp
    with processRows_ok [of w this "ledger s" ?s2] Inr show ?thesis
      by simp
  next
    case (Inl e)
    then have fin: "snd (checkPendingRequests w this s) =
                 console_error (ErrorProcessingPending (message e)) (snd ?p)"
      unfolding c by (cases ?p) simp
    have "trace (console_error (ErrorProcessingPending (message e)) (snd ?p)) =
            trace s @ ([Execute SelectAll, Log ProcessingPending] @ new_events ?s2 (snd ?p) @
                       [LogError (ErrorProcessingPending (message e))])"
      using x select_ok(2) [OF ok] by (simp add: console_error_def)
    from new_events_append [OF this] have "list_ex is_scan_error
        (new_events s (console_error (ErrorProcessingPending (message e)) (snd ?p)))"
      by simp
    with quiet fin show ?thesis by simp
  qed
qed

lemma scan_abandoned_row:
  "checkPendingRequests (demo_world (up_after 0)) (demo_requester [''http://a''] 5)
     (state_with [stored_row ''r9'' 5 1]) =
   (Inr (),
    \<lparr>ledger = [],
     trace = [Execute SelectAll, Log ProcessingPending,
              Log (SendingRequest ''http://a''), Post ''http://a'' ''hello'' 5000,
              Log (RequestSuccessful 200), Execute (DeleteRow ''r9'')],
     posts = 1, execs = 2, rands = 0\<rparr>)"
  by (simp add: checkPendingRequests_def retryHttpRequest.simps run_defs up_after_def
        state_with_def stored_row_def)

theorem recovery_scan_abandoned_counterexample:
  "abandoned (stored_row ''r9'' 5 1) = 1 \<and>
   ledger (state_with [stored_row ''r9'' 5 1]) = [stored_row ''r9'' 5 1] \<and>
   new_events (state_with [stored_row ''r9'' 5 1])
     (snd (checkPendingRequests (demo_world (up_after 0)) (demo_requester [''http://a''] 5)
             (state_with [stored_row ''r9'' 5 1]))) =
     [Execute SelectAll, Log ProcessingPending,
      Log (SendingRequest ''http://a''), Post ''http://a'' ''hello'' 5000,
      Log (RequestSuccessful 200), Execute (DeleteRow ''r9'')] \<and>
   ledger (snd (checkPendingRequests (demo_world (up_after 0)) (demo_requester [''http://a''] 5)
             (state_with [stored_row ''r9'' 5 1]))) = []"
  unfolding scan_abandoned_row
  by (simp add: new_events_def state_with_def stored_row_def)

lemma scan_two_rows:
  "checkPendingRequests (demo_world (up_after 0)) (demo_requester [''http://a''] 5)
     (state_with [stored_row ''r1'' 1 0, stored_row ''r9'' 5 1]) =
   (Inr (),
    \<lparr>ledger = [],
     trace = [Execute SelectAll, Log ProcessingPending,
              Log (SendingRequest ''http://a''), Post ''http://a'' ''hello'' 5000,
              Log (RequestSuccessful 200), Execute (DeleteRow ''r1''),
              Log (SendingRequest ''http://a''), Post ''http://a'' ''hello'' 5000,
              Log (RequestSuccessful 200), Execute (DeleteRow ''r9'')],
     posts = 2, execs = 3, rands = 0\<rparr>)"
  by (simp add: checkPendingRequests_def retryHttpRequest.simps run_defs up_after_def
        state_with_def stored_row_def)

theorem recovery_scan_resumes_every_row_witness:
  "snd (checkPendingRequests (demo_world (up_after 0)) (demo_requester [''http://a''] 5)
          (state_with [stored_row ''r1'' 1 0, stored_row ''r9'' 5 1])) =
     resume_all (demo_world (up_after 0)) (demo_requester [''http://a''] 5)
       (ledger (state_with [stored_row ''r1'' 1 0, stored_row ''r9'' 5 1]))
       (console_log ProcessingPending
          (snd (execute (demo_world (up_after 0)) SelectAll
                  (state_with [stored_row ''r1'' 1 0, stored_row ''r9'' 5 1]))))"
proof (rule recovery_scan_resumes_every_row)
  show "execute_fails (demo_world (up_after 0))
          (execs (state_with [stored_row ''r1'' 1 0, stored_row ''r9'' 5 1])) = None"
    by (simp add: demo_world_simps)
  show "ledger (state_with [stored_row ''r1'' 1 0, stored_row ''r9'' 5 1]) \<noteq> []"
    by (simp add: state_with_def)
  show "\<not> list_ex is_scan_error
          (new_events (state_with [stored_row ''r1'' 1 0, stored_row ''r9'' 5 1])
             (snd (checkPendingRequests (demo_world (up_after 0)) (demo_requester [''http://a''] 5)
                     (state_with [stored_row ''r1'' 1 0, stored_row ''r9'' 5 1]))))"
    unfolding scan_two_rows by (simp add: new_events_def state_with_def)
qed

text \<open>
  C6. A resumed delivery that uses up its attempts does not end as a delivery does.
  With \<open>maxAttempts = 2\<close> and a receiver that always answers 503, resuming the pending
  record \<open>r1\<close> at attempt 2 raises a ReferenceError, sends no statement and leaves the
  record pending, while \<^verbatim>\<open>makeHttpRequest\<close> at the same attempt with the same key
  returns and marks the record abandoned.
\<close>

theorem resume_exhaustion_raises:
  "fst (retryHttpRequest (demo_world always_503) (demo_requester [''http://a''] 2) ''r1'' 2
          ''hello'' (state_with [stored_row ''r1'' 2 0])) = Inl reference_error \<and>
   statements (new_events (state_with [stored_row ''r1'' 2 0])
     (snd (retryHttpRequest (demo_world always_503) (demo_requester [''http://a''] 2) ''r1'' 2
             ''hello'' (state_with [stored_row ''r1'' 2 0])))) = [] \<and>
   map abandoned (ledger (snd (retryHttpRequest (demo_world always_503)
      (demo_requester [''http://a''] 2) ''r1'' 2 ''hello'' (state_with [stored_row ''r1'' 2 0])))) =
     [0] \<and>
   fst (makeHttpRequest (demo_world always_503) (demo_requester [''http://a''] 2) ''hello'' 2
          (Some ''r1'') (state_with [stored_row ''r1'' 2 0])) = Inr () \<and>
   statements (new_events (state_with [stored_row ''r1'' 2 0])
     (snd (makeHttpRequest (demo_world always_503) (demo_requester [''http://a''] 2) ''hello'' 2
             (Some ''r1'') (state_with [stored_row ''r1'' 2 0])))) =
     [UpdateRow 1 2 (JNum 503) ''r1''] \<and>
   map abandoned (ledger (snd (makeHttpRequest (demo_world always_503)
      (demo_requester [''http://a''] 2) ''hello'' 2 (Some ''r1'')
      (state_with [stored_row ''r1'' 2 0])))) = [1]"
  by (simp add: retryHttpRequest.simps makeHttpRequest.simps run_defs always_503_def err_503_def
        state_with_def stored_row_def new_events_def)

text \<open>
  C8. \<^verbatim>\<open>startRequest\<close> never raises, and neither does \<^verbatim>\<open>makeHttpRequest\<close>, whatever
  the transport and the store answer: a delivery that uses up its attempts returns
  like any other.
\<close>

theorem startRequest_never_raises:
  "fst (startRequest w this body s) = Inr () \<and>
   fst (makeHttpRequest w this body a key s) = Inr ()"
proof
  show "fst (startRequest w this body s) = Inr ()"
    by (cases "makeHttpRequest w this body 1 None s"; cases "fst (makeHttpRequest w this body 1 None s)")
       (simp_all add: startRequest_def)
  show "fst (makeHttpRequest w this body a key s) = Inr ()"
    by (rule makeHttpRequest_returns)
qed

theorem startRequest_never_raises_witness:
  "fst (startRequest (demo_world always_503) (demo_requester [''http://a''] 2) ''hello''
          fresh_state) = Inr () \<and>
   LogError MaxAttemptsReached \<in>
     set (trace (snd (startRequest (demo_world always_503) (demo_requester [''http://a''] 2)
                        ''hello'' fresh_state)))"
proof
  show "fst (startRequest (demo_world always_503) (demo_requester [''http://a''] 2) ''hello''
          fresh_state) = Inr ()"
    by (rule startRequest_never_raises [THEN conjunct1])
  show "LogError MaxAttemptsReached \<in>
     set (trace (snd (startRequest (demo_world always_503) (demo_requester [''http://a''] 2)
                        ''hello'' fresh_state)))"
    unfolding startRequest_def run_always_503 by simp
qed

text \<open>
  C10. The constructor replaces a \<^verbatim>\<open>timeout\<close> or \<^verbatim>\<open>maxAttempts\<close> that is left out or
  0 by the default (5000 and 5): no requester it returns has a timeout of 0 or an
  attempt budget of 0.
\<close>

theorem constructor_defaults:
  assumes "HttpRequester_new w db rc = Inr this"
  shows "(timeout_arg rc = None \<or> timeout_arg rc = Some 0 \<longrightarrow> timeout (config this) = 5000) \<and>
         (maxAttempts_arg rc = None \<or> maxAttempts_arg rc = Some 0 \<longrightarrow>
            maxAttempts (config this) = 5) \<and>
         timeout (config this) \<noteq> 0 \<and> maxAttempts (config this) \<noteq> 0"
  using assms
  by (auto simp: HttpRequester_new_def or_default_def split: if_splits sum.splits option.splits)

lemma ascii_upper_demo: "ascii_upper ''node-1'' = ''NODE-1''"
  by code_simp

theorem constructor_defaults_witness:
  "HttpRequester_new (demo_world always_503) ConfigObject
     \<lparr>receiversUrl_arg = UrlArray [Some ''http://a''], timeout_arg = Some 0,
      maxAttempts_arg = Some 0\<rparr> =
     Inr \<lparr>config = \<lparr>receiversUrl = [''http://a''], timeout = 5000, maxAttempts = 5\<rparr>,
          this_hostname = ''NODE-1''\<rparr> \<and>
   timeout (config \<lparr>config = \<lparr>receiversUrl = [''http://a''], timeout = 5000, maxAttempts = 5\<rparr>,
          this_hostname = ''NODE-1''\<rparr>) = 5000 \<and>
   maxAttempts (config \<lparr>config = \<lparr>receiversUrl = [''http://a''], timeout = 5000, maxAttempts = 5\<rparr>,
          this_hostname = ''NODE-1''\<rparr>) = 5"
proof -
  have new: "HttpRequester_new (demo_world always_503) ConfigObject
     \<lparr>receiversUrl_arg = UrlArray [Some ''http://a''], timeout_arg = Some 0,
      maxAttempts_arg = Some 0\<rparr> =
     Inr \<lparr>config = \<lparr>receiversUrl = [''http://a''], timeout = 5000, maxAttempts = 5\<rparr>,
          this_hostname = ''NODE-1''\<rparr>"
    by (simp add: HttpRequester_new_def validate_receiversUrl_def is_url_def startsWith_def
          or_default_def ascii_upper_demo demo_world_def)
  from constructor_defaults [OF new] new show ?thesis
    by simp
qed

section \<open>The wait the timer makes\<close>

lemma backoff_wait_small: "n \<le> 21 \<Longrightarrow> backoff_wait n = 2 ^ n * 1000"
proof -
  assume n: "n \<le> 21"
  then have "(2::nat) ^ n \<le> 2 ^ 21"
    by (intro power_increasing) simp_all
  then have "(2::nat) ^ n * 1000 \<le> 2097152000"
    by simp
  moreover have "1 \<le> (2::nat) ^ n * 1000"
    by simp
  ultimately show ?thesis
    using n by (simp add: backoff_wait_def backoff_delay_def timer_wait_def)
qed




section \<open>One attempt, from the outcome of its dispatch\<close>

lemma makeHttpRequest_try_failed:
  "fst (sendRequest w this body s) = Inl e \<Longrightarrow>
   makeHttpRequest_try w this body a key s = (Some e, snd (sendRequest w this body s))"
  by (cases "sendRequest w this body s") (simp add: makeHttpRequest_try_def)


lemma retryHttpRequest_try_failed:
  "fst (sendRequest w this body s) = Inl e \<Longrightarrow>
   retryHttpRequest_try w this rid body s = (Some e, snd (sendRequest w this body s))"
  by (cases "sendRequest w this body s") (simp add: retryHttpRequest_try_def)

lemma retryHttpRequest_try_good:
  "fst (sendRequest w this body s) = Inr (Some r) \<Longrightarrow>
   fst (retryHttpRequest_try w this rid body s) = None"
  by (cases "sendRequest w this body s") (simp add: retryHttpRequest_try_def)

lemma makeHttpRequest_ext:
  "trace (snd (makeHttpRequest w this body a key s)) =
     trace s @ new_events s (snd (makeHttpRequest w this body a key s))"
  using makeHttpRequest_ladder [of a this w body key s] by blast


lemma makeHttpRequest_retry_step:
  assumes f: "fst (sendRequest w this body s) = Inl e"
    and lt: "int a < maxAttempts (config this)"
  shows "makeHttpRequest w this body a key s =
           makeHttpRequest w this body (Suc a)
             (Some (fst (catch_entry w a key e (snd (sendRequest w this body s)))))
             (before_retry w this body a key e (snd (sendRequest w this body s)))"
    and "ladder (new_events s (snd (makeHttpRequest w this body a key s))) =
           [Failed a, Wait (backoff_wait a)] @
           ladder (new_events (before_retry w this body a key e (snd (sendRequest w this body s)))
                     (snd (makeHttpRequest w this body a key s)))"
proof -
  let ?s1 = "snd (sendRequest w this body s)"
  let ?s2 = "before_retry w this body a key e ?s1"
  let ?k2 = "Some (fst (catch_entry w a key e ?s1))"
  note tr = makeHttpRequest_try_failed [OF f, of a key]
  from makeHttpRequest_cases [of w this body a key s] tr lt
  show run: "makeHttpRequest w this body a key s = makeHttpRequest w this body (Suc a) ?k2 ?s2"
    by auto
  let ?s' = "snd (makeHttpRequest w this body (Suc a) ?k2 ?s2)"
  note t = makeHttpRequest_try_Some [OF tr]
  from before_retry_ladder [of w this body a key e ?s1] obtain evs where
    evs: "trace ?s2 = trace ?s1 @ evs" "ladder evs = [Failed a, Wait (backoff_wait a)]"
    by blast
  note b = new_events_intro [OF evs(1)]
  note t2 = new_events_trans [OF t(1) b(1)]
  note t3 = new_events_trans [OF t2(2) makeHttpRequest_ext [of w this body "Suc a" ?k2 ?s2]]
  have "ladder (new_events s ?s') =
          [Failed a, Wait (backoff_wait a)] @ ladder (new_events ?s2 ?s')"
    using t3(1) t2(1) t(2) b(2) evs(2) by simp
  then show "ladder (new_events s (snd (makeHttpRequest w this body a key s))) =
           [Failed a, Wait (backoff_wait a)] @
           ladder (new_events ?s2 (snd (makeHttpRequest w this body a key s)))"
    unfolding run .
qed


lemma retryHttpRequest_good_step:
  assumes "fst (sendRequest w this body s) = Inr (Some r)"
  shows "ladder (new_events s (snd (retryHttpRequest w this rid a body s))) = []"
proof -
  obtain s1 where t: "retryHttpRequest_try w this rid body s = (None, s1)"
    using retryHttpRequest_try_good [OF assms, of rid]
    by (cases "retryHttpRequest_try w this rid body s") auto
  with retryHttpRequest_cases [of w this rid body s a]
  have "retryHttpRequest w this rid a body s = (Inr (), s1)" by auto
  with retryHttpRequest_try_None(2) [OF t] show ?thesis by simp
qed

lemma retryHttpRequest_retry_step:
  assumes f: "fst (sendRequest w this body s) = Inl e"
    and lt: "int a < maxAttempts (config this)"
  shows "retryHttpRequest w this rid a body s =
           retryHttpRequest w this rid (Suc a) body
             (resume_backoff a e (snd (sendRequest w this body s)))"
    and "ladder (new_events s (snd (retryHttpRequest w this rid a body s))) =
           [Failed a, Wait (backoff_wait a)] @
           ladder (new_events (resume_backoff a e (snd (sendRequest w this body s)))
                     (snd (retryHttpRequest w this rid a body s)))"
proof -
  let ?s1 = "snd (sendRequest w this body s)"
  let ?s2 = "resume_backoff a e ?s1"
  note tr = retryHttpRequest_try_failed [OF f, of rid]
  from retryHttpRequest_cases [of w this rid body s a] tr lt
  show run: "retryHttpRequest w this rid a body s = retryHttpRequest w this rid (Suc a) body ?s2"
    by auto
  let ?s' = "snd (retryHttpRequest w this rid (Suc a) body ?s2)"
  note t = retryHttpRequest_try_Some [OF tr]
  note b = resume_backoff_events [where a = a and e = e and ?s1.0 = ?s1]
  note t2 = new_events_trans [OF t(1) b(1)]
  note t3 = new_events_trans [OF t2(2) retryHttpRequest_ext [of w this rid "Suc a" body ?s2]]
  have "ladder (new_events s ?s') =
          [Failed a, Wait (backoff_wait a)] @ ladder (new_events ?s2 ?s')"
    using t3(1) t2(1) t(2) b(2) by simp
  then show "ladder (new_events s (snd (retryHttpRequest w this rid a body s))) =
           [Failed a, Wait (backoff_wait a)] @
           ladder (new_events ?s2 (snd (retryHttpRequest w this rid a body s)))"
    unfolding run .
qed

lemma retryHttpRequest_stop_step:
  assumes f: "fst (sendRequest w this body s) = Inl e"
    and ge: "\<not> int a < maxAttempts (config this)"
  shows "ladder (new_events s (snd (retryHttpRequest w this rid a body s))) = [Failed a]"
proof -
  let ?s1 = "snd (sendRequest w this body s)"
  note tr = retryHttpRequest_try_failed [OF f, of rid]
  from retryHttpRequest_cases [of w this rid body s a] tr ge
  have run: "retryHttpRequest w this rid a body s =
               (Inl reference_error, console_error (RetryAttemptFailed a (message e)) ?s1)"
    by auto
  note t = retryHttpRequest_try_Some [OF tr]
  note g = resume_stop_events [where a = a and m = "message e" and ?s1.0 = ?s1]
  from new_events_trans(1) [OF t(1) g(1)] t(2) g(2) show ?thesis
    unfolding run by simp
qed


lemma retryHttpRequest_whole_ladder:
  assumes "\<not> succeeded (new_events s (snd (retryHttpRequest w this rid a body s)))"
    and "int a \<le> maxAttempts (config this)"
  shows "ladder (new_events s (snd (retryHttpRequest w this rid a body s))) =
           rungs a (nat (maxAttempts (config this))) @ [Failed (nat (maxAttempts (config this)))]"
proof -
  from retryHttpRequest_run [of a this w rid body s] assms(1) obtain k where
    k: "a \<le> k" "k = a \<or> int k \<le> maxAttempts (config this)"
      "ladder (new_events s (snd (retryHttpRequest w this rid a body s))) = rungs a k @ [Failed k]"
      "\<not> int k < maxAttempts (config this)"
    by blast
  from k(1,2,4) assms(2) have "k = nat (maxAttempts (config this))"
    by auto
  with k(3) show ?thesis by simp
qed

section \<open>A transport that always fails\<close>





lemma dispatch_always_503:
  "fst (sendRequest (demo_world always_503) (demo_requester [''http://a''] m) ''hello'' s) =
     Inl err_503"
  by (simp add: run_defs always_503_def)

lemma dispatch_up_after_0:
  "fst (sendRequest (demo_world (up_after 0)) (demo_requester [''http://a''] m) ''hello'' s) =
     Inr (Some \<lparr>status = 200\<rparr>)"
  by (simp add: run_defs up_after_def)





section \<open>The console line of a failed attempt\<close>

lemma before_retry_line:
  "\<exists>rest. trace (before_retry w this body a k e s1) =
     trace s1 @ LogError (AttemptFailed a (message e) (statusCode_of e)) # rest"
  by (cases "execute_fails w (execs s1)")
     (simp_all add: before_retry_def Let_def settle_def sleep_def console_log_def console_error_def
        insertAttemptRecord_def execute_def catch_entry_frame)

lemma given_up_line:
  "\<exists>rest. trace (given_up w this body a k e s1) =
     trace s1 @ LogError (AttemptFailed a (message e) (statusCode_of e)) # rest"
  by (cases "execute_fails w (execs s1)")
     (simp_all add: given_up_def Let_def settle_def console_log_def console_error_def
        insertAttemptRecord_def abandonAttemptRecord_def execute_def catch_entry_frame)

lemma failed_attempt_recorded:
  assumes S: "\<forall>n. execute_fails w n = None"
    and failed: "fst (sendRequest w this body s) = Inl e"
  shows "\<exists>rest. new_events s (snd (makeHttpRequest w this body a key s)) =
           new_events s (snd (sendRequest w this body s)) @
           LogError (AttemptFailed a (message e) (statusCode_of e)) # rest"
    and "a = 1 \<Longrightarrow> \<exists>rest.
           statements (new_events s (snd (makeHttpRequest w this body a key s))) =
             InsertRow (attempt_row w this
                 (fst (catch_entry w 1 key e (snd (sendRequest w this body s)))) 1
                 (statusCode_of e) body (if 1 < maxAttempts (config this) then 0 else 1)) # rest"
    and "a \<noteq> 1 \<Longrightarrow> \<not> int a < maxAttempts (config this) \<Longrightarrow>
           statements (new_events s (snd (makeHttpRequest w this body a key s))) =
             [UpdateRow 1 a (statusCode_of e)
                (fst (catch_entry w a key e (snd (sendRequest w this body s))))] \<and>
           ledger (snd (makeHttpRequest w this body a key s)) =
             run_stmt (UpdateRow 1 a (statusCode_of e)
                (fst (catch_entry w a key e (snd (sendRequest w this body s))))) (ledger s)"
proof -
  let ?s1 = "snd (sendRequest w this body s)"
  let ?L = "LogError (AttemptFailed a (message e) (statusCode_of e))"
  let ?s' = "snd (makeHttpRequest w this body a key s)"
  let ?s2 = "before_retry w this body a key e ?s1"
  let ?g = "given_up w this body a key e ?s1"
  note tr = makeHttpRequest_try_failed [OF failed, of a key]
  note ev = sendRequest_events [OF surjective_pairing [of "sendRequest w this body s"]]
  have S1: "execute_fails w (execs ?s1) = None" using S by simp
  have quiet: "statements (new_events s ?s1) = []"
    using dispatch_events_silent [OF ev(2)] by simp
  have again: "makeHttpRequest w this body a key s =
      makeHttpRequest w this body (Suc a) (Some (fst (catch_entry w a key e ?s1))) ?s2"
    if "int a < maxAttempts (config this)"
    using makeHttpRequest_retry_step(1) [OF failed that] .
  have stop: "makeHttpRequest w this body a key s = (Inr (), ?g)"
    if "\<not> int a < maxAttempts (config this)"
    using makeHttpRequest_cases [of w this body a key s] tr that by auto
  show "\<exists>rest. new_events s ?s' = new_events s ?s1 @ ?L # rest"
  proof (cases "int a < maxAttempts (config this)")
    case True
    from before_retry_line [of w this body a key e ?s1] obtain rest where
      r: "trace ?s2 = trace ?s1 @ ?L # rest" by blast
    have "trace ?s' = trace s @ (new_events s ?s1 @ ?L # (rest @ new_events ?s2 ?s'))"
      using makeHttpRequest_ext [of w this body "Suc a" "Some (fst (catch_entry w a key e ?s1))" ?s2]
        r ev(1)
      unfolding again [OF True] by simp
    from new_events_append [OF this] show ?thesis by blast
  next
    case False
    from given_up_line [of w this body a key e ?s1] obtain rest where
      r: "trace ?g = trace ?s1 @ ?L # rest" by blast
    have "trace ?s' = trace s @ (new_events s ?s1 @ ?L # rest)"
      using r ev(1) unfolding stop [OF False] by simp
    from new_events_append [OF this] show ?thesis by blast
  qed
  show "\<exists>rest. statements (new_events s ?s') =
          InsertRow (attempt_row w this (fst (catch_entry w 1 key e ?s1)) 1
             (statusCode_of e) body (if 1 < maxAttempts (config this) then 0 else 1)) # rest"
    if a: "a = 1"
  proof (cases "int a < maxAttempts (config this)")
    case True
    let ?k2 = "Some (fst (catch_entry w a key e ?s1))"
    note b = before_retry_first [OF S1, where this = this and body = body and k = key and e = e]
    note t2 = new_events_trans [OF ev(1) b(3)]
    note t3 = new_events_trans [OF t2(2) makeHttpRequest_ext [of w this body "Suc 1" "Some (fst (catch_entry w 1 key e ?s1))" "before_retry w this body 1 key e ?s1"]]
    from t3(1) t2(1) b(1) quiet True show ?thesis
      unfolding again [OF True] unfolding a
      by (simp add: attempt_row_def)
  next
    case False
    note g = given_up_first [OF S1, where this = this and body = body and k = key and e = e]
    note t2 = new_events_trans [OF ev(1) g(3)]
    from t2(1) g(1) quiet False show ?thesis
      unfolding stop [OF False] unfolding a
      by (simp add: attempt_row_def)
  qed
  show "statements (new_events s ?s') =
          [UpdateRow 1 a (statusCode_of e) (fst (catch_entry w a key e ?s1))] \<and>
        ledger ?s' = run_stmt (UpdateRow 1 a (statusCode_of e)
                       (fst (catch_entry w a key e ?s1))) (ledger s)"
    if a: "a \<noteq> 1" and ge: "\<not> int a < maxAttempts (config this)"
  proof -
    note g = given_up_later [OF a S1, where this = this and body = body and k = key and e = e]
    note t2 = new_events_trans [OF ev(1) g(3)]
    from t2(1) g(1,2) quiet ev(3) show ?thesis
      unfolding stop [OF ge]
      by simp
  qed
qed

text \<open>
  C9, as amended. When the dispatch of attempt \<open>a\<close> of a delivery fails with error \<open>e\<close>,
  one classification \<open>c\<close> is recorded for the attempt: the HTTP status when \<open>e\<close> carries
  a response, otherwise the error code when \<open>e\<close> carries a non-empty one, and otherwise
  \<^verbatim>\<open>null\<close>. It is the one printed in the console line of the failed attempt, right after
  the events of the dispatch; at attempt 1 it is the error column of the record inserted;
  at a later attempt that is the last one it is the error column written by the UPDATE
  that abandons the record. (The store accepts every statement.)
\<close>

theorem failure_classification_recorded:
  assumes S: "\<forall>n. execute_fails w n = None"
    and failed: "fst (sendRequest w this body s) = Inl e"
  shows "\<exists>c.
     (\<forall>resp. response e = Some resp \<longrightarrow> c = JNum (status resp)) \<and>
     (\<forall>x. response e = None \<and> code e = Some x \<and> x \<noteq> [] \<longrightarrow> c = JStr x) \<and>
     (response e = None \<and> (code e = None \<or> code e = Some []) \<longrightarrow> c = JNull) \<and>
     (\<exists>rest. new_events s (snd (makeHttpRequest w this body a key s)) =
        new_events s (snd (sendRequest w this body s)) @
        LogError (AttemptFailed a (message e) c) # rest) \<and>
     (a = 1 \<longrightarrow>
        (\<exists>r rest.
           statements (new_events s (snd (makeHttpRequest w this body a key s))) =
             InsertRow r # rest \<and>
           attempt_number r = 1 \<and> error r = c \<and>
           abandoned r = (if 1 < maxAttempts (config this) then 0 else 1) \<and>
           (key = None \<longrightarrow> request_id r = delivery_id w s))) \<and>
     (a \<noteq> 1 \<and> \<not> int a < maxAttempts (config this) \<longrightarrow>
        (\<exists>k. statements (new_events s (snd (makeHttpRequest w this body a key s))) =
               [UpdateRow 1 a c k] \<and>
             ledger (snd (makeHttpRequest w this body a key s)) =
               run_stmt (UpdateRow 1 a c k) (ledger s) \<and>
             (\<forall>rid. key = Some rid \<and> rid \<noteq> [] \<longrightarrow> k = rid)))"
proof (intro exI [of _ "statusCode_of e"] conjI impI allI)
  fix resp assume "response e = Some resp"
  then show "statusCode_of e = JNum (status resp)" by (simp add: statusCode_of_def)
next
  fix x assume "response e = None \<and> code e = Some x \<and> x \<noteq> []"
  then show "statusCode_of e = JStr x" by (simp add: statusCode_of_def)
next
  assume "response e = None \<and> (code e = None \<or> code e = Some [])"
  then show "statusCode_of e = JNull" by (auto simp: statusCode_of_def)
next
  from failed_attempt_recorded(1) [OF S failed, where a = a and key = key]
  show "\<exists>rest. new_events s (snd (makeHttpRequest w this body a key s)) =
        new_events s (snd (sendRequest w this body s)) @
        LogError (AttemptFailed a (message e) (statusCode_of e)) # rest" .
next
  assume a: "a = 1"
  let ?s1 = "snd (sendRequest w this body s)"
  note ev = sendRequest_events [OF surjective_pairing [of "sendRequest w this body s"]]
  from failed_attempt_recorded(2) [OF S failed a, where key = key] obtain rest where
    st: "statements (new_events s (snd (makeHttpRequest w this body a key s))) =
          InsertRow (attempt_row w this (fst (catch_entry w 1 key e ?s1)) 1
             (statusCode_of e) body (if 1 < maxAttempts (config this) then 0 else 1)) # rest"
    by blast
  have "fst (catch_entry w 1 key e ?s1) = delivery_id w s" if "key = None"
    using catch_entry_key(3) [of key ?s1 s w 1 e] ev(5) that
    by (simp add: truthy_def delivery_id_def)
  with st show "\<exists>r rest.
           statements (new_events s (snd (makeHttpRequest w this body a key s))) =
             InsertRow r # rest \<and>
           attempt_number r = 1 \<and> error r = statusCode_of e \<and>
           abandoned r = (if 1 < maxAttempts (config this) then 0 else 1) \<and>
           (key = None \<longrightarrow> request_id r = delivery_id w s)"
    by (intro exI [of _ "attempt_row w this (fst (catch_entry w 1 key e ?s1)) 1
             (statusCode_of e) body (if 1 < maxAttempts (config this) then 0 else 1)"]
           exI [of _ rest])
       (simp add: attempt_row_def)
next
  assume h: "a \<noteq> 1 \<and> \<not> int a < maxAttempts (config this)"
  let ?s1 = "snd (sendRequest w this body s)"
  from failed_attempt_recorded(3) [OF S failed h [THEN conjunct1] h [THEN conjunct2], where key = key]
    catch_entry_key(2) [of key w a e ?s1]
  show "\<exists>k. statements (new_events s (snd (makeHttpRequest w this body a key s))) =
               [UpdateRow 1 a (statusCode_of e) k] \<and>
             ledger (snd (makeHttpRequest w this body a key s)) =
               run_stmt (UpdateRow 1 a (statusCode_of e) k) (ledger s) \<and>
             (\<forall>rid. key = Some rid \<and> rid \<noteq> [] \<longrightarrow> k = rid)"
    by (intro exI [of _ "fst (catch_entry w a key e ?s1)"]) (auto simp: truthy_def)
qed

lemma dispatch_always_refused:
  "fst (sendRequest (demo_world always_refused) (demo_requester [''http://a''] m) ''hello'' s) =
     Inl err_refused"
  by (simp add: run_defs always_refused_def)

lemma dispatch_always_bare:
  "fst (sendRequest (demo_world always_bare) (demo_requester [''http://a''] m) ''hello'' s) =
     Inl err_bare"
  by (simp add: run_defs always_bare_def)

theorem failure_classification_recorded_witness:
  "(\<exists>r rest.
     statements (new_events fresh_state
        (snd (makeHttpRequest (demo_world always_503) (demo_requester [''http://a''] 2)
                ''hello'' 1 None fresh_state))) = InsertRow r # rest \<and>
     request_id r = delivery_id (demo_world always_503) fresh_state \<and> attempt_number r = 1 \<and>
     error r = JNum 503 \<and> abandoned r = 0) \<and>
   statements (new_events (state_with [stored_row ''r1'' 1 0])
      (snd (makeHttpRequest (demo_world always_refused) (demo_requester [''http://a''] 2)
              ''hello'' 2 (Some ''r1'') (state_with [stored_row ''r1'' 1 0])))) =
     [UpdateRow 1 2 (JStr ''ECONNREFUSED'') ''r1''] \<and>
   (\<exists>rest. new_events (state_with [stored_row ''r1'' 1 0])
      (snd (makeHttpRequest (demo_world always_refused) (demo_requester [''http://a''] 2)
              ''hello'' 2 (Some ''r1'') (state_with [stored_row ''r1'' 1 0]))) =
      new_events (state_with [stored_row ''r1'' 1 0])
        (snd (sendRequest (demo_world always_refused) (demo_requester [''http://a''] 2)
                ''hello'' (state_with [stored_row ''r1'' 1 0]))) @
      LogError (AttemptFailed 2 ''connect ECONNREFUSED'' (JStr ''ECONNREFUSED'')) # rest) \<and>
   (\<exists>r rest.
     statements (new_events fresh_state
        (snd (makeHttpRequest (demo_world always_bare) (demo_requester [''http://a''] 1)
                ''hello'' 1 None fresh_state))) = InsertRow r # rest \<and>
     attempt_number r = 1 \<and> error r = JNull \<and> abandoned r = 1)"
proof (intro conjI)
  have S: "\<forall>n. execute_fails (demo_world out) n = None" for out :: "nat \<Rightarrow> js_error + response"
    by (simp add: demo_world_simps)
  have resp: "response err_503 = Some \<lparr>status = 503\<rparr>"
    by (simp add: err_503_def)
  have m2: "(1::int) < maxAttempts (config (demo_requester [''http://a''] 2))"
    and m2': "\<not> int 2 < maxAttempts (config (demo_requester [''http://a''] 2))"
    and m1: "\<not> (1::int) < maxAttempts (config (demo_requester [''http://a''] 1))"
    by (simp_all add: demo_requester_simps)
  from failure_classification_recorded
         [OF S dispatch_always_503 [where m = 2 and s = fresh_state], where a = 1 and key = None]
  obtain c where c: "\<forall>resp. response err_503 = Some resp \<longrightarrow> c = JNum (status resp)"
    "1 = (1::nat) \<longrightarrow>
        (\<exists>r rest.
           statements (new_events fresh_state
             (snd (makeHttpRequest (demo_world always_503) (demo_requester [''http://a''] 2)
                ''hello'' 1 None fresh_state))) = InsertRow r # rest \<and>
           attempt_number r = 1 \<and> error r = c \<and>
           abandoned r = (if 1 < maxAttempts (config (demo_requester [''http://a''] 2))
                          then 0 else 1) \<and>
           (None = (None :: string option) \<longrightarrow>
              request_id r = delivery_id (demo_world always_503) fresh_state))"
    by blast
  from c(1) resp have "c = JNum 503" by simp
  with c(2) m2
  show "\<exists>r rest.
     statements (new_events fresh_state
        (snd (makeHttpRequest (demo_world always_503) (demo_requester [''http://a''] 2)
                ''hello'' 1 None fresh_state))) = InsertRow r # rest \<and>
     request_id r = delivery_id (demo_world always_503) fresh_state \<and> attempt_number r = 1 \<and>
     error r = JNum 503 \<and> abandoned r = 0"
    by auto
  have code: "response err_refused = None \<and> code err_refused = Some ''ECONNREFUSED'' \<and>
              ''ECONNREFUSED'' \<noteq> []"
    and msg: "message err_refused = ''connect ECONNREFUSED''"
    by (simp_all add: err_refused_def)
  from failure_classification_recorded
         [OF S dispatch_always_refused [where m = 2 and s = "state_with [stored_row ''r1'' 1 0]"],
          where a = 2 and key = "Some ''r1''"]
  obtain c k where d:
    "\<forall>x. response err_refused = None \<and> code err_refused = Some x \<and> x \<noteq> [] \<longrightarrow> c = JStr x"
    "\<exists>rest. new_events (state_with [stored_row ''r1'' 1 0])
      (snd (makeHttpRequest (demo_world always_refused) (demo_requester [''http://a''] 2)
              ''hello'' 2 (Some ''r1'') (state_with [stored_row ''r1'' 1 0]))) =
      new_events (state_with [stored_row ''r1'' 1 0])
        (snd (sendRequest (demo_world always_refused) (demo_requester [''http://a''] 2)
                ''hello'' (state_with [stored_row ''r1'' 1 0]))) @
      LogError (AttemptFailed 2 (message err_refused) c) # rest"
    "statements (new_events (state_with [stored_row ''r1'' 1 0])
      (snd (makeHttpRequest (demo_world always_refused) (demo_requester [''http://a''] 2)
              ''hello'' 2 (Some ''r1'') (state_with [stored_row ''r1'' 1 0])))) =
       [UpdateRow 1 2 c k]"
    "\<forall>rid. Some ''r1'' = Some rid \<and> rid \<noteq> [] \<longrightarrow> k = rid"
    using m2' by auto
  from d(1) code have cv: "c = JStr ''ECONNREFUSED''" by blast
  from d(4) have kv: "k = ''r1''" by simp
  from d(3) show "statements (new_events (state_with [stored_row ''r1'' 1 0])
      (snd (makeHttpRequest (demo_world always_refused) (demo_requester [''http://a''] 2)
              ''hello'' 2 (Some ''r1'') (state_with [stored_row ''r1'' 1 0])))) =
     [UpdateRow 1 2 (JStr ''ECONNREFUSED'') ''r1'']"
    unfolding cv kv .
  from d(2) show "\<exists>rest. new_events (state_with [stored_row ''r1'' 1 0])
      (snd (makeHttpRequest (demo_world always_refused) (demo_requester [''http://a''] 2)
              ''hello'' 2 (Some ''r1'') (state_with [stored_row ''r1'' 1 0]))) =
      new_events (state_with [stored_row ''r1'' 1 0])
        (snd (sendRequest (demo_world always_refused) (demo_requester [''http://a''] 2)
                ''hello'' (state_with [stored_row ''r1'' 1 0]))) @
      LogError (AttemptFailed 2 ''connect ECONNREFUSED'' (JStr ''ECONNREFUSED'')) # rest"
    unfolding cv msg .
  have bare: "response err_bare = None \<and> (code err_bare = None \<or> code err_bare = Some [])"
    by (simp add: err_bare_def)
  from failure_classification_recorded
         [OF S dispatch_always_bare [where m = 1 and s = fresh_state], where a = 1 and key = None]
  obtain c where b:
    "response err_bare = None \<and> (code err_bare = None \<or> code err_bare = Some []) \<longrightarrow> c = JNull"
    "1 = (1::nat) \<longrightarrow>
        (\<exists>r rest.
           statements (new_events fresh_state
             (snd (makeHttpRequest (demo_world always_bare) (demo_requester [''http://a''] 1)
                ''hello'' 1 None fresh_state))) = InsertRow r # rest \<and>
           attempt_number r = 1 \<and> error r = c \<and>
           abandoned r = (if 1 < maxAttempts (config (demo_requester [''http://a''] 1))
                          then 0 else 1) \<and>
           (None = (None :: string option) \<longrightarrow>
              request_id r = delivery_id (demo_world always_bare) fresh_state))"
    by blast
  from b(1) bare have "c = JNull" by blast
  with b(2) m1
  show "\<exists>r rest.
     statements (new_events fresh_state
        (snd (makeHttpRequest (demo_world always_bare) (demo_requester [''http://a''] 1)
                ''hello'' 1 None fresh_state))) = InsertRow r # rest \<and>
     attempt_number r = 1 \<and> error r = JNull \<and> abandoned r = 1"
    by auto
qed

theorem unknown_classification_counterexample:
  "statements (new_events fresh_state
      (snd (makeHttpRequest (demo_world always_bare) (demo_requester [''http://a''] 1)
              ''hello'' 1 None fresh_state))) =
     [InsertRow \<lparr>request_id = demo_uuid, attempt_number = 1, error = JNull,
                 payload = quoted ''hello'', abandoned = 1, hostname = ''NODE-1''\<rparr>] \<and>
   statements (new_events (state_with [stored_row ''r1'' 1 0])
      (snd (makeHttpRequest (demo_world always_bare) (demo_requester [''http://a''] 2)
              ''hello'' 2 (Some ''r1'') (state_with [stored_row ''r1'' 1 0])))) =
     [UpdateRow 1 2 JNull ''r1''] \<and>
   map error (ledger (snd (makeHttpRequest (demo_world always_bare)
      (demo_requester [''http://a''] 2) ''hello'' 2 (Some ''r1'')
      (state_with [stored_row ''r1'' 1 0])))) = [JNull] \<and>
   JNull \<noteq> JStr ''unknown''"
  by (simp add: makeHttpRequest.simps run_defs always_bare_def err_bare_def fresh_state_def
        state_with_def stored_row_def new_events_def)

text \<open>
  C7, as amended. When the table holds one record with attempt number 2, the scan
  re-enters the ladder at attempt 2: the first dispatch of the scan is counted as attempt
  2. If it is answered, nothing follows. If it fails and \<open>maxAttempts\<close> is not above 2,
  the ladder is that one failure. If it fails and \<open>maxAttempts\<close> is above 2, then 4000
  milliseconds are waited and the delivery goes on as attempt 3: a failure of the next
  dispatch is the failure of attempt 3, and an answer ends the ladder after the wait. A
  scan on which no attempt succeeds fails at every attempt from 2 to \<open>maxAttempts\<close>.
  Attempt 1 never occurs.
\<close>

theorem recovery_continues_ladder:
  assumes ok: "execute_fails w (execs s) = None"
    and one: "ledger s = [r]"
    and two: "attempt_number r = 2"
    and parse: "json_parse w (payload r) = Inr body"
  shows
   "(fst (sendRequest w this body (scan_start w s)) = Inr (Some resp) \<longrightarrow>
       ladder (new_events s (snd (checkPendingRequests w this s))) = []) \<and>
    (fst (sendRequest w this body (scan_start w s)) = Inl e \<and>
     \<not> 2 < maxAttempts (config this) \<longrightarrow>
       ladder (new_events s (snd (checkPendingRequests w this s))) = [Failed 2]) \<and>
    (fst (sendRequest w this body (scan_start w s)) = Inl e \<and> 2 < maxAttempts (config this) \<longrightarrow>
       ladder (new_events s (snd (checkPendingRequests w this s))) =
         [Failed 2, Wait 4000] @
         ladder (new_events
           (resume_backoff 2 e (snd (sendRequest w this body (scan_start w s))))
           (snd (retryHttpRequest w this (request_id r) 3 body
                   (resume_backoff 2 e (snd (sendRequest w this body (scan_start w s))))))) \<and>
       (fst (sendRequest w this body
               (resume_backoff 2 e (snd (sendRequest w this body (scan_start w s))))) =
          Inr (Some resp) \<longrightarrow>
          ladder (new_events s (snd (checkPendingRequests w this s))) = [Failed 2, Wait 4000]) \<and>
       (fst (sendRequest w this body
               (resume_backoff 2 e (snd (sendRequest w this body (scan_start w s))))) =
          Inl e3 \<longrightarrow>
          (\<exists>rest. ladder (new_events s (snd (checkPendingRequests w this s))) =
                    [Failed 2, Wait 4000, Failed 3] @ rest))) \<and>
    (\<not> succeeded (new_events s (snd (checkPendingRequests w this s))) \<and>
     2 \<le> maxAttempts (config this) \<longrightarrow>
       ladder (new_events s (snd (checkPendingRequests w this s))) =
         rungs 2 (nat (maxAttempts (config this))) @ [Failed (nat (maxAttempts (config this)))]) \<and>
    (\<exists>k. 2 \<le> k \<and>
       (ladder (new_events s (snd (checkPendingRequests w this s))) = rungs 2 k \<or>
        ladder (new_events s (snd (checkPendingRequests w this s))) = rungs 2 k @ [Failed k])) \<and>
    Failed 1 \<notin> set (ladder (new_events s (snd (checkPendingRequests w this s))))"
proof -
  let ?s2 = "scan_start w s"
  let ?run = "retryHttpRequest w this (request_id r) 2 body ?s2"
  let ?scan = "new_events s (snd (checkPendingRequests w this s))"
  have rows: "ledger s \<noteq> []" using one by simp
  note c = checkPendingRequests_rows [OF ok rows, of this, folded scan_start_def]
  have pre: "trace ?s2 = trace s @ [Execute SelectAll, Log ProcessingPending]"
    using select_ok(2) [OF ok] by (simp add: scan_start_def)
  note n0 = new_events_intro [OF pre]
  note x = retryHttpRequest_ext [of w this "request_id r" 2 body ?s2]
  note t1 = new_events_trans [OF n0(1) x]
  have run1: "ladder (new_events s (snd ?run)) = ladder (new_events ?s2 (snd ?run))"
    "succeeded (new_events s (snd ?run)) = succeeded (new_events ?s2 (snd ?run))"
    using t1(1) n0(2) by simp_all
  have scan: "ladder ?scan = ladder (new_events ?s2 (snd ?run)) \<and>
              succeeded ?scan = succeeded (new_events ?s2 (snd ?run))"
  proof (cases "fst ?run")
    case (Inr u)
    then have "snd (checkPendingRequests w this s) = snd ?run"
      unfolding c one using two parse by (cases ?run) simp
    with run1 show ?thesis by simp
  next
    case (Inl e)
    let ?fin = "console_error (ErrorProcessingPending (message e)) (snd ?run)"
    from Inl have fin: "snd (checkPendingRequests w this s) = ?fin"
      unfolding c one using two parse by (cases ?run) simp
    have "trace ?fin = trace (snd ?run) @ [LogError (ErrorProcessingPending (message e))]"
      by (simp add: console_error_def)
    note n1 = new_events_intro [OF this]
    from new_events_trans [OF t1(2) n1(1)] n1(2) run1 show ?thesis
      unfolding fin by simp
  qed
  note lad = scan [THEN conjunct1]
  note suc = scan [THEN conjunct2]
  have w2: "backoff_wait 2 = 4000" by (simp add: backoff_wait_small)
  have three: "Suc 2 = 3" by simp
  show ?thesis
  proof (intro conjI impI)
    assume "fst (sendRequest w this body ?s2) = Inr (Some resp)"
    from retryHttpRequest_good_step [OF this]
    show "ladder ?scan = []" unfolding lad .
  next
    assume h: "fst (sendRequest w this body ?s2) = Inl e \<and> \<not> 2 < maxAttempts (config this)"
    then have "\<not> int 2 < maxAttempts (config this)" by simp
    from retryHttpRequest_stop_step [OF h [THEN conjunct1] this]
    show "ladder ?scan = [Failed 2]" unfolding lad .
  next
    assume h: "fst (sendRequest w this body ?s2) = Inl e \<and> 2 < maxAttempts (config this)"
    then have lt: "int 2 < maxAttempts (config this)" by simp
    let ?s3 = "resume_backoff 2 e (snd (sendRequest w this body ?s2))"
    note st = retryHttpRequest_retry_step [OF h [THEN conjunct1] lt, where rid = "request_id r"]
    have next_run: "?run = retryHttpRequest w this (request_id r) 3 body ?s3"
      using st(1) unfolding three .
    show step: "ladder ?scan = [Failed 2, Wait 4000] @
         ladder (new_events ?s3 (snd (retryHttpRequest w this (request_id r) 3 body ?s3)))"
      using st(2) unfolding lad w2 next_run .
    {
      assume "fst (sendRequest w this body ?s3) = Inr (Some resp)"
      from retryHttpRequest_good_step [OF this]
      show "ladder ?scan = [Failed 2, Wait 4000]"
        unfolding step by simp
    }
    {
      assume f3: "fst (sendRequest w this body ?s3) = Inl e3"
      have "\<exists>rest. ladder (new_events ?s3
                     (snd (retryHttpRequest w this (request_id r) 3 body ?s3))) = Failed 3 # rest"
      proof (cases "int 3 < maxAttempts (config this)")
        case True
        from retryHttpRequest_retry_step(2) [OF f3 True] show ?thesis by simp
      next
        case False
        from retryHttpRequest_stop_step [OF f3 False] show ?thesis by simp
      qed
      then show "\<exists>rest. ladder ?scan = [Failed 2, Wait 4000, Failed 3] @ rest"
        unfolding step by auto
    }
  next
    assume h: "\<not> succeeded ?scan \<and> 2 \<le> maxAttempts (config this)"
    then have q: "\<not> succeeded (new_events ?s2 (snd ?run))"
      and m: "int 2 \<le> maxAttempts (config this)"
      unfolding suc by simp_all
    from retryHttpRequest_whole_ladder [OF q m]
    show "ladder ?scan =
         rungs 2 (nat (maxAttempts (config this))) @ [Failed (nat (maxAttempts (config this)))]"
      unfolding lad .
  next
    from retryHttpRequest_run [of 2 this w "request_id r" body ?s2]
    show "\<exists>k. 2 \<le> k \<and> (ladder ?scan = rungs 2 k \<or> ladder ?scan = rungs 2 k @ [Failed k])"
      unfolding lad by blast
  next
    from retryHttpRequest_run [of 2 this w "request_id r" body ?s2] obtain k where
      k: "2 \<le> k"
        "ladder (new_events ?s2 (snd ?run)) = rungs 2 k \<or>
         ladder (new_events ?s2 (snd ?run)) = rungs 2 k @ [Failed k]"
      by blast
    have "Failed 1 \<notin> set (rungs 2 k @ [Failed k])"
      using rungs_Failed [of 1 2 k] k(1) by auto
    with k(2) show "Failed 1 \<notin> set (ladder ?scan)"
      unfolding lad by auto
  qed
qed

lemma scan_attempt_two_of_five:
  "checkPendingRequests (demo_world always_503) (demo_requester [''http://a''] 5)
     (state_with [stored_row ''r1'' 2 0]) =
   (Inr (),
    \<lparr>ledger = [stored_row ''r1'' 2 0],
     trace = [Execute SelectAll, Log ProcessingPending,
              Log (SendingRequest ''http://a''), Post ''http://a'' ''hello'' 5000,
              Log (RequestFailed ''http://a''),
              LogError (RetryAttemptFailed 2 ''Request failed with status code 503''),
              Log (RetryingAfter (Finite 4000)), Sleep (Finite 4000),
              Log (SendingRequest ''http://a''), Post ''http://a'' ''hello'' 5000,
              Log (RequestFailed ''http://a''),
              LogError (RetryAttemptFailed 3 ''Request failed with status code 503''),
              Log (RetryingAfter (Finite 8000)), Sleep (Finite 8000),
              Log (SendingRequest ''http://a''), Post ''http://a'' ''hello'' 5000,
              Log (RequestFailed ''http://a''),
              LogError (RetryAttemptFailed 4 ''Request failed with status code 503''),
              Log (RetryingAfter (Finite 16000)), Sleep (Finite 16000),
              Log (SendingRequest ''http://a''), Post ''http://a'' ''hello'' 5000,
              Log (RequestFailed ''http://a''),
              LogError (RetryAttemptFailed 5 ''Request failed with status code 503''),
              LogError (ErrorProcessingPending ''recordId is not defined'')],
     posts = 4, execs = 1, rands = 0\<rparr>)"
  by (simp add: checkPendingRequests_def retryHttpRequest.simps run_defs always_503_def
        err_503_def state_with_def stored_row_def reference_error_def backoff_delay_def)

theorem recovery_continues_ladder_witness:
  "ladder (new_events (state_with [stored_row ''r1'' 2 0])
     (snd (checkPendingRequests (demo_world always_503) (demo_requester [''http://a''] 5)
             (state_with [stored_row ''r1'' 2 0])))) =
     [Failed 2, Wait 4000, Failed 3, Wait 8000, Failed 4, Wait 16000, Failed 5] \<and>
   (\<exists>rest. ladder (new_events (state_with [stored_row ''r1'' 2 0])
     (snd (checkPendingRequests (demo_world always_503) (demo_requester [''http://a''] 5)
             (state_with [stored_row ''r1'' 2 0])))) = [Failed 2, Wait 4000, Failed 3] @ rest) \<and>
   ladder (new_events (state_with [stored_row ''r1'' 2 0])
     (snd (checkPendingRequests (demo_world always_503) (demo_requester [''http://a''] 2)
             (state_with [stored_row ''r1'' 2 0])))) = [Failed 2] \<and>
   ladder (new_events (state_with [stored_row ''r1'' 2 0])
     (snd (checkPendingRequests (demo_world (up_after 0)) (demo_requester [''http://a''] 5)
             (state_with [stored_row ''r1'' 2 0])))) = [] \<and>
   ladder (new_events (state_with [stored_row ''r1'' 2 0])
     (snd (checkPendingRequests (demo_world (up_after 1)) (demo_requester [''http://a''] 5)
             (state_with [stored_row ''r1'' 2 0])))) = [Failed 2, Wait 4000] \<and>
   Failed 1 \<notin> set (ladder (new_events (state_with [stored_row ''r1'' 2 0])
     (snd (checkPendingRequests (demo_world always_503) (demo_requester [''http://a''] 5)
             (state_with [stored_row ''r1'' 2 0])))))"
proof (intro conjI)
  let ?S = "state_with [stored_row ''r1'' 2 0]"
  have ok: "execute_fails (demo_world out) (execs ?S) = None"
    for out :: "nat \<Rightarrow> js_error + response"
    by (simp add: demo_world_simps)
  have one: "ledger ?S = [stored_row ''r1'' 2 0]"
    by (simp add: state_with_def)
  have two: "attempt_number (stored_row ''r1'' 2 0) = 2"
    by (simp add: stored_row_def)
  have parse: "json_parse (demo_world out) (payload (stored_row ''r1'' 2 0)) = Inr ''hello''"
    for out :: "nat \<Rightarrow> js_error + response"
    by (simp add: demo_world_simps stored_row_def unquoted_def quoted_def)
  note c2 = conjunct2 [THEN conjunct1]
  note c3 = conjunct2 [THEN conjunct2, THEN conjunct1]
  note c4 = conjunct2 [THEN conjunct2, THEN conjunct2, THEN conjunct1]
  note c6 = conjunct2 [THEN conjunct2, THEN conjunct2, THEN conjunct2, THEN conjunct2]
  note five = recovery_continues_ladder [OF ok [of always_503] one two parse [of always_503],
      where this = "demo_requester [''http://a''] 5"
      and e = err_503 and ?e3.0 = err_503 and resp = "\<lparr>status = 200\<rparr>"]
  note two_only = recovery_continues_ladder [OF ok [of always_503] one two parse [of always_503],
      where this = "demo_requester [''http://a''] 2"
      and e = err_503 and ?e3.0 = err_503 and resp = "\<lparr>status = 200\<rparr>"]
  note up = recovery_continues_ladder [OF ok [of "up_after 0"] one two parse [of "up_after 0"],
      where this = "demo_requester [''http://a''] 5"
      and e = err_503 and ?e3.0 = err_503 and resp = "\<lparr>status = 200\<rparr>"]
  note up1 = recovery_continues_ladder [OF ok [of "up_after 1"] one two parse [of "up_after 1"],
      where this = "demo_requester [''http://a''] 5"
      and e = err_503 and ?e3.0 = err_503 and resp = "\<lparr>status = 200\<rparr>"]
  have quiet: "\<not> succeeded (new_events ?S
     (snd (checkPendingRequests (demo_world always_503) (demo_requester [''http://a''] 5) ?S)))"
    unfolding scan_attempt_two_of_five by (simp add: new_events_def state_with_def)
  have m5: "2 \<le> maxAttempts (config (demo_requester [''http://a''] 5))"
    and lt5: "2 < maxAttempts (config (demo_requester [''http://a''] 5))"
    and ge2: "\<not> 2 < maxAttempts (config (demo_requester [''http://a''] 2))"
    by (simp_all add: demo_requester_simps)
  have r25: "rungs 2 (nat (maxAttempts (config (demo_requester [''http://a''] 5)))) @
               [Failed (nat (maxAttempts (config (demo_requester [''http://a''] 5))))] =
             [Failed 2, Wait 4000, Failed 3, Wait 8000, Failed 4, Wait 16000, Failed 5]"
    by (simp add: demo_requester_simps rungs_def upt_conv_Cons backoff_wait_small)
  from five [THEN c4, rule_format, OF conjI [OF quiet m5]] r25
  show "ladder (new_events ?S
     (snd (checkPendingRequests (demo_world always_503) (demo_requester [''http://a''] 5) ?S))) =
     [Failed 2, Wait 4000, Failed 3, Wait 8000, Failed 4, Wait 16000, Failed 5]"
    by (rule trans)
  from five [THEN c3, rule_format, OF conjI [OF dispatch_always_503 lt5],
             THEN conjunct2, THEN conjunct2, rule_format, OF dispatch_always_503]
  show "\<exists>rest. ladder (new_events ?S
     (snd (checkPendingRequests (demo_world always_503) (demo_requester [''http://a''] 5) ?S))) =
     [Failed 2, Wait 4000, Failed 3] @ rest" .
  from two_only [THEN c2, rule_format, OF conjI [OF dispatch_always_503 ge2]]
  show "ladder (new_events ?S
     (snd (checkPendingRequests (demo_world always_503) (demo_requester [''http://a''] 2) ?S))) =
     [Failed 2]" .
  from up [THEN conjunct1, rule_format, OF dispatch_up_after_0]
  show "ladder (new_events ?S
     (snd (checkPendingRequests (demo_world (up_after 0)) (demo_requester [''http://a''] 5) ?S))) =
     []" .
  have first: "fst (sendRequest (demo_world (up_after 1)) (demo_requester [''http://a''] 5)
                  ''hello'' (scan_start (demo_world (up_after 1)) ?S)) = Inl err_503"
    by (simp add: run_defs up_after_def scan_start_def state_with_def)
  have second: "fst (sendRequest (demo_world (up_after 1)) (demo_requester [''http://a''] 5)
                  ''hello''
                  (resume_backoff 2 err_503
                     (snd (sendRequest (demo_world (up_after 1)) (demo_requester [''http://a''] 5)
                             ''hello'' (scan_start (demo_world (up_after 1)) ?S))))) =
                Inr (Some \<lparr>status = 200\<rparr>)"
    by (simp add: run_defs up_after_def scan_start_def state_with_def resume_backoff_def)
  from up1 [THEN c3, rule_format, OF conjI [OF first lt5],
            THEN conjunct2, THEN conjunct1, rule_format, OF second]
  show "ladder (new_events ?S
     (snd (checkPendingRequests (demo_world (up_after 1)) (demo_requester [''http://a''] 5) ?S))) =
     [Failed 2, Wait 4000]" .
  from five [THEN c6]
  show "Failed 1 \<notin> set (ladder (new_events ?S
     (snd (checkPendingRequests (demo_world always_503) (demo_requester [''http://a''] 5) ?S))))" .
qed

lemma scan_attempt_two:
  "checkPendingRequests (demo_world always_503) (demo_requester [''http://a''] 3)
     (state_with [stored_row ''r1'' 2 0]) =
   (Inr (),
    \<lparr>ledger = [stored_row ''r1'' 2 0],
     trace = [Execute SelectAll, Log ProcessingPending,
              Log (SendingRequest ''http://a''), Post ''http://a'' ''hello'' 5000,
              Log (RequestFailed ''http://a''),
              LogError (RetryAttemptFailed 2 ''Request failed with status code 503''),
              Log (RetryingAfter (Finite 4000)), Sleep (Finite 4000),
              Log (SendingRequest ''http://a''), Post ''http://a'' ''hello'' 5000,
              Log (RequestFailed ''http://a''),
              LogError (RetryAttemptFailed 3 ''Request failed with status code 503''),
              LogError (ErrorProcessingPending ''recordId is not defined'')],
     posts = 2, execs = 1, rands = 0\<rparr>)"
  by (simp add: checkPendingRequests_def retryHttpRequest.simps run_defs always_503_def
        err_503_def state_with_def stored_row_def reference_error_def)

theorem resume_next_attempt_counterexample:
  "attempt_number (stored_row ''r1'' 2 0) = 2 \<and>
   ladder (new_events (state_with [stored_row ''r1'' 2 0])
     (snd (checkPendingRequests (demo_world always_503) (demo_requester [''http://a''] 3)
             (state_with [stored_row ''r1'' 2 0])))) =
     [Failed 2, Wait 4000, Failed 3] \<and>
   hd (ladder (new_events (state_with [stored_row ''r1'' 2 0])
     (snd (checkPendingRequests (demo_world always_503) (demo_requester [''http://a''] 3)
             (state_with [stored_row ''r1'' 2 0]))))) \<noteq> Failed 3"
  unfolding scan_attempt_two
  by (simp add: new_events_def state_with_def stored_row_def)

end
